theory Spec2Isabelle
  imports Complex_Main "HOL-Library.AList"
begin

section \<open>Python string primitives used by \<^verbatim>\<open>pyresample/utils.py\<close>\<close>

text \<open>
  The module is Python 2 code (implicit relative imports, \<^verbatim>\<open>np.int\<close>), so a \<^verbatim>\<open>str\<close> is a
  byte string: it is modelled as \<^typ>\<open>string\<close>, a list of 8-bit characters.
\<close>

text \<open>Whitespace as \<^verbatim>\<open>str.strip()\<close> and \<^verbatim>\<open>str.split()\<close> see it: space, TAB, LF, VT, FF, CR.\<close>

definition isspace :: "char \<Rightarrow> bool" where
  "isspace c = (c = CHR '' '' \<or> c = CHR 0x09 \<or> c = CHR 0x0A \<or> c = CHR 0x0B
                \<or> c = CHR 0x0C \<or> c = CHR 0x0D)"

text \<open>\<^verbatim>\<open>s.startswith(p)\<close>.\<close>

fun startswith :: "string \<Rightarrow> string \<Rightarrow> bool" where
  "startswith s [] = True"
| "startswith [] (p # ps) = False"
| "startswith (c # cs) (p # ps) = (c = p \<and> startswith cs ps)"

text \<open>\<^verbatim>\<open>sub in s\<close>: \<open>sub\<close> occurs in \<open>s\<close> as a contiguous substring.\<close>

fun py_in :: "string \<Rightarrow> string \<Rightarrow> bool" where
  "py_in sub [] = (sub = [])"
| "py_in sub (c # cs) = (startswith (c # cs) sub \<or> py_in sub cs)"

text \<open>
  \<^verbatim>\<open>s.replace(old, new)\<close>: every non-overlapping occurrence of \<open>old\<close>, found from the left,
  is replaced by \<open>new\<close>. With an empty \<open>old\<close> Python inserts \<open>new\<close> before every
  character and at the end.
\<close>

function py_replace :: "string \<Rightarrow> string \<Rightarrow> string \<Rightarrow> string" where
  "py_replace old new s =
     (if old = [] then new @ concat (map (\<lambda>c. c # new) s)
      else if s = [] then []
      else if startswith s old then new @ py_replace old new (drop (length old) s)
      else hd s # py_replace old new (tl s))"
  by pat_completeness auto
termination
  by (relation "measure (\<lambda>(old, new, s). length s)") auto

declare py_replace.simps [simp del]

text \<open>\<^verbatim>\<open>s.strip()\<close>: leading and trailing whitespace removed.\<close>

definition py_strip :: "string \<Rightarrow> string" where
  "py_strip s = rev (dropWhile isspace (rev (dropWhile isspace s)))"

text \<open>
  \<^verbatim>\<open>s.split()\<close>: the maximal runs of non-whitespace characters, in order. The first
  argument is the token being read.
\<close>

fun split_acc :: "string \<Rightarrow> string \<Rightarrow> string list" where
  "split_acc cur [] = (if cur = [] then [] else [cur])"
| "split_acc cur (c # cs) =
     (if isspace c then (if cur = [] then split_acc [] cs else cur # split_acc [] cs)
      else split_acc (cur @ [c]) cs)"

definition py_split :: "string \<Rightarrow> string list" where
  "py_split s = split_acc [] s"

text \<open>
  \<^verbatim>\<open>s.splitlines()\<close> on a byte string: lines end at LF, CR or CR LF; the terminators are
  dropped and a final terminator does not open an empty last line.
\<close>

fun splitlines_acc :: "string \<Rightarrow> string \<Rightarrow> string list" where
  "splitlines_acc cur [] = (if cur = [] then [] else [cur])"
| "splitlines_acc cur (c # cs) =
     (if c = CHR 0x0A then cur # splitlines_acc [] cs
      else if c = CHR 0x0D then
        (case cs of
           [] \<Rightarrow> [cur]
         | d # ds \<Rightarrow> if d = CHR 0x0A then cur # splitlines_acc [] ds
                     else cur # splitlines_acc [] cs)
      else splitlines_acc (cur @ [c]) cs)"

definition py_splitlines :: "string \<Rightarrow> string list" where
  "py_splitlines s = splitlines_acc [] s"

text \<open>\<^verbatim>\<open>sep.join(xs)\<close>.\<close>

fun py_join :: "string \<Rightarrow> string list \<Rightarrow> string" where
  "py_join sep [] = []"
| "py_join sep [x] = x"
| "py_join sep (x # y # ys) = x @ sep @ py_join sep (y # ys)"

text \<open>\<^verbatim>\<open>xs.index(x)\<close>: the first position of \<open>x\<close>; \<open>None\<close> stands for the ValueError.\<close>

fun py_index :: "'a list \<Rightarrow> 'a \<Rightarrow> nat option" where
  "py_index [] x = None"
| "py_index (y # ys) x = (if y = x then Some 0 else map_option Suc (py_index ys x))"

section \<open>Exceptions and parsed values\<close>

datatype exn =
    IOError string
  | AreaNotFound string string
  | KeyError string
  | ValueError string
  | TypeError
  | IndexError
  | FormatError string

text \<open>
  A value of a parsed configuration: a single string, or a sequence of strings (a Python
  \<^verbatim>\<open>str\<close> or \<^verbatim>\<open>list\<close> of \<^verbatim>\<open>str\<close>).
\<close>

datatype cval = Scalar string | Seq "string list"

type_synonym config = "(string \<times> cval) list"

text \<open>\<^verbatim>\<open>d[k]\<close> on a dict: KeyError when the key is absent.\<close>

definition getitem :: "(string \<times> 'v) list \<Rightarrow> string \<Rightarrow> exn + 'v" where
  "getitem d k = (case map_of d k of None \<Rightarrow> Inl (KeyError k) | Some v \<Rightarrow> Inr v)"

text \<open>\<^verbatim>\<open>xs[i]\<close> for a non-negative constant \<open>i\<close>: IndexError out of range.\<close>

definition list_get :: "'a list \<Rightarrow> nat \<Rightarrow> exn + 'a" where
  "list_get xs i = (if i < length xs then Inr (xs ! i) else Inl IndexError)"

text \<open>\<^verbatim>\<open>xs[i] = v\<close>: IndexError out of range.\<close>

definition list_set :: "'a list \<Rightarrow> nat \<Rightarrow> 'a \<Rightarrow> exn + 'a list" where
  "list_set xs i v = (if i < length xs then Inr (xs[i := v]) else Inl IndexError)"

text \<open>Sequencing of calls that may raise: the first exception ends the computation.\<close>

definition bind_exn :: "exn + 'a \<Rightarrow> ('a \<Rightarrow> exn + 'b) \<Rightarrow> exn + 'b" where
  "bind_exn r f = (case r of Inl e \<Rightarrow> Inl e | Inr x \<Rightarrow> f x)"

fun map_exn :: "('a \<Rightarrow> exn + 'b) \<Rightarrow> 'a list \<Rightarrow> exn + 'b list" where
  "map_exn f [] = Inr []"
| "map_exn f (x # xs) =
     bind_exn (f x) (\<lambda>y. bind_exn (map_exn f xs) (\<lambda>ys. Inr (y # ys)))"

section \<open>Builtin conversions \<^verbatim>\<open>int()\<close> and \<^verbatim>\<open>float()\<close> on strings\<close>

definition isdigit :: "char \<Rightarrow> bool" where
  "isdigit c = (48 \<le> (of_char c :: nat) \<and> (of_char c :: nat) \<le> 57)"

definition digits_val :: "string \<Rightarrow> nat" where
  "digits_val ds = foldl (\<lambda>a c. 10 * a + (of_char c - 48)) 0 ds"

text \<open>An optional sign in front of a number: whether it is negative, and the rest.\<close>

definition split_sign :: "string \<Rightarrow> bool \<times> string" where
  "split_sign s =
     (case s of
        [] \<Rightarrow> (False, [])
      | c # cs \<Rightarrow> if c = CHR ''-'' then (True, cs)
                  else if c = CHR ''+'' then (False, cs) else (False, s))"

text \<open>
  \<^verbatim>\<open>int(s)\<close> for a string: surrounding whitespace is ignored, then an optional sign and at
  least one decimal digit; anything else is a ValueError.
\<close>

definition py_int :: "string \<Rightarrow> exn + int" where
  "py_int s =
     (let (neg, ds) = split_sign (py_strip s)
      in if ds \<noteq> [] \<and> list_all isdigit ds
         then Inr ((if neg then - 1 else 1) * int (digits_val ds))
         else Inl (ValueError s))"

text \<open>
  \<^verbatim>\<open>float(s)\<close> for a string, on plain decimal literals: surrounding whitespace, an optional
  sign, digits with at most one decimal point and at least one digit. The value is the exact
  decimal; the rounding to the nearest double is not modelled, and neither are exponents and
  the special values \<^verbatim>\<open>inf\<close> and \<^verbatim>\<open>nan\<close>, which Python also accepts: such tokens are
  outside this model.
\<close>

definition py_float :: "string \<Rightarrow> exn + real" where
  "py_float s =
     (let (neg, body) = split_sign (py_strip s);
          ip = takeWhile (\<lambda>c. c \<noteq> CHR ''.'') body;
          fp = drop 1 (dropWhile (\<lambda>c. c \<noteq> CHR ''.'') body)
      in if ip @ fp \<noteq> [] \<and> list_all isdigit (ip @ fp)
         then Inr ((if neg then - 1 else 1) * real (digits_val (ip @ fp)) / 10 ^ length fp)
         else Inl (ValueError s))"

section \<open>The key=value parser\<close>

text \<open>The text before and after the first occurrence of a delimiter, if there is one.\<close>

fun split_first :: "char \<Rightarrow> string \<Rightarrow> (string \<times> string) option" where
  "split_first d [] = None"
| "split_first d (c # cs) =
     (if c = d then Some ([], cs)
      else map_option (\<lambda>(k, v). (c # k, v)) (split_first d cs))"

text \<open>\<^verbatim>\<open>s.split(d)\<close> for a one-character delimiter.\<close>

fun split_on :: "char \<Rightarrow> string \<Rightarrow> string list" where
  "split_on d [] = [ [] ]"
| "split_on d (c # cs) =
     (if c = d then [] # split_on d cs
      else (case split_on d cs of [] \<Rightarrow> [ [c] ] | x # xs \<Rightarrow> (c # x) # xs))"

definition parse_value :: "string \<Rightarrow> cval" where
  "parse_value v =
     (if CHR '','' \<in> set v then Seq (map py_strip (split_on CHR '','' v))
      else Scalar (py_strip v))"

text \<open>
  Modelled from the spec: \<^verbatim>\<open>ConfigObj(lines).dict()\<close>, the general-purpose key=value
  library the module imports, whose code is not among the sources. Following the
  spec (4.1 and step 1 of 4.2): blank lines are skipped; every other line is split at its
  first \<open>=\<close> and is a format error when it has none; key and value are trimmed; a value
  with commas is the sequence of its trimmed comma-separated tokens; the result is an
  insertion-ordered mapping in which a later duplicate key overwrites the earlier value.
  Quoting, comments and sections of the library are outside this model.
\<close>

fun ConfigObj_from :: "config \<Rightarrow> string list \<Rightarrow> exn + config" where
  "ConfigObj_from m [] = Inr m"
| "ConfigObj_from m (l # ls) =
     (if py_strip l = [] then ConfigObj_from m ls
      else (case split_first CHR ''='' l of
              None \<Rightarrow> Inl (FormatError l)
            | Some (k, v) \<Rightarrow> ConfigObj_from (AList.update (py_strip k) (parse_value v) m) ls))"

definition ConfigObj :: "string list \<Rightarrow> exn + config" where
  "ConfigObj lines = ConfigObj_from [] lines"

section \<open>Area definitions\<close>

text \<open>
  Modelled from the spec: \<^verbatim>\<open>geometry.AreaDefinition\<close>, defined in a module of the
  repository that is not among the sources. The spec treats it as an opaque constructed
  record; it is modelled as the record of its seven constructor arguments, in the order of
  the constructor, with no validation. Python does not fix the types of the arguments, so
  the record is polymorphic in each of them.
\<close>

record ('i, 'n, 'p, 'd, 'x, 'y, 'e) AreaDefinition =
  area_id :: 'i
  name :: 'n
  proj_id :: 'p
  proj_dict :: 'd
  x_size :: 'x
  y_size :: 'y
  area_extent :: 'e

type_synonym AreaConfig = "(string, string, cval, config, int, int, real list) AreaDefinition"

text \<open>
  \<^verbatim>\<open>_get_proj4_args\<close> (an Isabelle name cannot start with an underscore). A string has
  every \<open>+\<close> removed and is split at whitespace; a list is handed over as it is.
\<close>

definition get_proj4_args :: "cval \<Rightarrow> exn + config" where
  "get_proj4_args proj4_args =
     (case proj4_args of
        Scalar s \<Rightarrow> ConfigObj (py_split (py_replace ''+'' '''' s))
      | Seq ts \<Rightarrow> ConfigObj ts)"

text \<open>
  \<^verbatim>\<open>_create_area\<close>; its first parameter, \<^verbatim>\<open>area_id\<close> in the source, is \<open>region\<close>
  here, since \<open>area_id\<close> is a field of the record. The source stores it under the key
  REGION, over any such key of the block, and reads it back for the constructor. The source
  rebinds entries of the one dict \<open>config\<close> to values of
  other types; here each rebinding is a variable of its own, and the entries are read in the
  order in which the source reads them, so that the first exception is the source's.
  \<^item> NAME: a list has \<^verbatim>\<open>__iter__\<close> and is joined with \<open>", "\<close>; a Python 2 string has not,
    the bare \<^verbatim>\<open>except\<close> catches the AttributeError and the join with \<open>""\<close> gives the
    string back. A missing NAME raises KeyError once more inside the handler.
  \<^item> XSIZE, YSIZE: \<^verbatim>\<open>int\<close> of a list is a TypeError.
  \<^item> AREA_EXTENT: on a string, indexing an empty one is an IndexError and the item
    assignment a TypeError; on a list, items 0 and 3 are read and stored, then every item is
    converted.
\<close>

definition int_of :: "cval \<Rightarrow> exn + int" where
  "int_of v = (case v of Scalar s \<Rightarrow> py_int s | Seq ts \<Rightarrow> Inl TypeError)"

definition extent_of :: "cval \<Rightarrow> exn + real list" where
  "extent_of v =
     (case v of
        Scalar s \<Rightarrow> if s = [] then Inl IndexError else Inl TypeError
      | Seq ts \<Rightarrow>
          bind_exn (list_get ts 0) (\<lambda>e0.
          bind_exn (list_set ts 0 (py_replace ''('' '''' e0)) (\<lambda>ts1.
          bind_exn (list_get ts1 3) (\<lambda>e3.
          bind_exn (list_set ts1 3 (py_replace '')'' '''' e3)) (\<lambda>ts2.
          map_exn py_float ts2)))))"

definition create_area :: "string \<Rightarrow> string \<Rightarrow> exn + AreaConfig" where
  "create_area region area_content =
     bind_exn (ConfigObj (py_splitlines
         (py_replace ''};'' '''' (py_replace ''{'' '''' (py_replace '':'' ''='' area_content)))))
       (\<lambda>config.
     bind_exn (getitem config ''NAME'') (\<lambda>nm.
     let NAME = (case nm of Seq ts \<Rightarrow> py_join '', '' ts | Scalar s \<Rightarrow> s) in
     bind_exn (bind_exn (getitem config ''XSIZE'') int_of) (\<lambda>XSIZE.
     bind_exn (bind_exn (getitem config ''YSIZE'') int_of) (\<lambda>YSIZE.
     bind_exn (bind_exn (getitem config ''AREA_EXTENT'') extent_of) (\<lambda>AREA_EXTENT.
     bind_exn (bind_exn (getitem config ''PCS_DEF'') get_proj4_args) (\<lambda>PCS_DEF.
     bind_exn (getitem config ''PCS_ID'') (\<lambda>PCS_ID.
       Inr \<lparr>area_id = region, name = NAME, proj_id = PCS_ID, proj_dict = PCS_DEF,
            x_size = XSIZE, y_size = YSIZE, area_extent = AREA_EXTENT\<rparr>)))))))"

section \<open>\<^verbatim>\<open>parse_area_file\<close>\<close>

text \<open>
  The variables of the scanning loop. \<open>cur_id\<close> and \<open>area_content\<close> are the source's
  \<^verbatim>\<open>area_id\<close> and \<^verbatim>\<open>area_content\<close>; Python leaves them unbound until the first block,
  and never reads them before, so their initial value here is never used. A slot of
  \<open>area_defs\<close> that holds Python's \<^verbatim>\<open>None\<close> is \<open>None\<close>.
\<close>

record scan_state =
  in_area :: bool
  cur_id :: string
  area_content :: string
  area_defs :: "AreaConfig option list"

text \<open>The block id read from a \<^verbatim>\<open>REGION\<close> line.\<close>

definition region_id :: "string \<Rightarrow> string" where
  "region_id line = py_strip (py_replace ''{'' '''' (py_replace ''REGION:'' '''' line))"

text \<open>
  One iteration of \<^verbatim>\<open>for line in area_file.readlines()\<close>. In the assignment to the
  slot Python evaluates the right-hand side, the call of \<^verbatim>\<open>_create_area\<close>, before
  \<^verbatim>\<open>area_list.index(area_id)\<close>.
\<close>

definition scan_line :: "string list \<Rightarrow> bool \<Rightarrow> scan_state \<Rightarrow> string \<Rightarrow> exn + scan_state" where
  "scan_line area_list select_all_areas st line =
     (if \<not> in_area st then
        (if py_in ''REGION'' line then
           (let aid = region_id line
            in if aid \<in> set area_list \<or> select_all_areas
               then Inr (st\<lparr>in_area := True, cur_id := aid, area_content := ''''\<rparr>)
               else Inr (st\<lparr>cur_id := aid\<rparr>))
         else Inr st)
      else if py_in ''};'' line then
        (if select_all_areas then
           bind_exn (create_area (cur_id st) (area_content st)) (\<lambda>a.
             Inr (st\<lparr>in_area := False, area_defs := area_defs st @ [Some a]\<rparr>))
         else
           bind_exn (create_area (cur_id st) (area_content st)) (\<lambda>a.
             (case py_index area_list (cur_id st) of
                None \<Rightarrow> Inl (ValueError (cur_id st))
              | Some k \<Rightarrow>
                  bind_exn (list_set (area_defs st) k (Some a)) (\<lambda>defs.
                    Inr (st\<lparr>in_area := False, area_defs := defs\<rparr>)))))
      else Inr (st\<lparr>area_content := area_content st @ line\<rparr>))"

text \<open>The whole loop: an exception raised in one iteration ends it.\<close>

fun scan_lines :: "string list \<Rightarrow> bool \<Rightarrow> scan_state \<Rightarrow> string list \<Rightarrow> exn + scan_state" where
  "scan_lines area_list select_all_areas st [] = Inr st"
| "scan_lines area_list select_all_areas st (line # rest) =
     bind_exn (scan_line area_list select_all_areas st line)
       (\<lambda>st'. scan_lines area_list select_all_areas st' rest)"

text \<open>
  The final check \<^verbatim>\<open>for i, area in enumerate(area_defs)\<close>: the first empty slot raises
  AreaNotFound with \<^verbatim>\<open>area_list[i]\<close>; with no empty slot the list is returned.
\<close>

fun check_found :: "string \<Rightarrow> string list \<Rightarrow> AreaConfig option list \<Rightarrow> exn + AreaConfig list" where
  "check_found fname names [] = Inr []"
| "check_found fname names (Some a # ds) =
     bind_exn (check_found fname (tl names) ds) (\<lambda>as. Inr (a # as))"
| "check_found fname [] (None # ds) = Inl IndexError"
| "check_found fname (n # ns) (None # ds) = Inl (AreaNotFound n fname)"

text \<open>The entries of a list that are not \<^verbatim>\<open>None\<close>.\<close>

fun present :: "'a option list \<Rightarrow> 'a list" where
  "present [] = []"
| "present (None # xs) = present xs"
| "present (Some x # xs) = x # present xs"

text \<open>The file handle of a call: never opened, still open, or closed.\<close>

datatype handle = Unopened | Opened | Closed

text \<open>
  \<^verbatim>\<open>parse_area_file(area_file_name, *regions)\<close>. The file system is a map from paths to
  what \<^verbatim>\<open>readlines()\<close> returns there (the lines, each with its line terminator); a path
  outside its domain makes \<^verbatim>\<open>open\<close> raise. The result is the state in which the call leaves
  the file handle, and the exception or the returned list. \<^verbatim>\<open>area_file.close()\<close> is the
  statement after the loop, so it runs only when the loop ends without an exception. With no
  region requested every entry of \<open>area_defs\<close> was appended by the loop and none is
  \<^verbatim>\<open>None\<close>.
\<close>

definition parse_area_file ::
  "(string \<rightharpoonup> string list) \<Rightarrow> string \<Rightarrow> string list \<Rightarrow> handle \<times> (exn + AreaConfig list)" where
  "parse_area_file fs area_file_name regions =
     (case fs area_file_name of
        None \<Rightarrow> (Unopened, Inl (IOError area_file_name))
      | Some lines \<Rightarrow>
          (let area_list = regions;
               select_all_areas = (length area_list = 0);
               area_defs0 = (if select_all_areas then [] else map (\<lambda>i. None) area_list)
           in case scan_lines area_list select_all_areas
                     \<lparr>in_area = False, cur_id = '''', area_content = '''', area_defs = area_defs0\<rparr>
                     lines of
                Inl e \<Rightarrow> (Opened, Inl e)
              | Inr st \<Rightarrow>
                  (Closed,
                   if \<not> select_all_areas then check_found area_file_name area_list (area_defs st)
                   else Inr (present (area_defs st)))))"


section \<open>The block scanner of the specification\<close>

text \<open>
  The two-state machine of the spec (4.3), without the construction of records: in
  \<open>Scanning\<close> a line containing \<^verbatim>\<open>REGION\<close> whose id is selected opens a block; in
  \<open>InBlock\<close> a line containing the terminator completes the block and every other line is
  appended to its content. \<open>spec_blocks\<close> lists the completed blocks, id and content, in file
  order; a block still open at the end of the input is not among them.
\<close>

datatype scanner = Scanning | InBlock string string

definition selected :: "string list \<Rightarrow> string \<Rightarrow> bool" where
  "selected regions i = (regions = [] \<or> i \<in> set regions)"

fun spec_blocks :: "string list \<Rightarrow> scanner \<Rightarrow> string list \<Rightarrow> (string \<times> string) list" where
  "spec_blocks regions s [] = []"
| "spec_blocks regions Scanning (l # ls) =
     (if py_in ''REGION'' l \<and> selected regions (region_id l)
      then spec_blocks regions (InBlock (region_id l) []) ls
      else spec_blocks regions Scanning ls)"
| "spec_blocks regions (InBlock i c) (l # ls) =
     (if py_in ''};'' l then (i, c) # spec_blocks regions Scanning ls
      else spec_blocks regions (InBlock i (c @ l)) ls)"

text \<open>The state of the machine after the given lines.\<close>

fun spec_state :: "string list \<Rightarrow> scanner \<Rightarrow> string list \<Rightarrow> scanner" where
  "spec_state regions s [] = s"
| "spec_state regions Scanning (l # ls) =
     (if py_in ''REGION'' l \<and> selected regions (region_id l)
      then spec_state regions (InBlock (region_id l) []) ls
      else spec_state regions Scanning ls)"
| "spec_state regions (InBlock i c) (l # ls) =
     (if py_in ''};'' l then spec_state regions Scanning ls
      else spec_state regions (InBlock i (c @ l)) ls)"

text \<open>The completed blocks of a file when the given regions are requested.\<close>

definition blocks :: "string list \<Rightarrow> string list \<Rightarrow> (string \<times> string) list" where
  "blocks regions lines = spec_blocks regions Scanning lines"

text \<open>The ids of the completed blocks.\<close>

definition block_ids :: "string list \<Rightarrow> string list \<Rightarrow> string set" where
  "block_ids regions lines = fst ` set (blocks regions lines)"

text \<open>Every completed block can be turned into a record.\<close>

definition all_build :: "(string \<times> string) list \<Rightarrow> bool" where
  "all_build bs = list_all (\<lambda>b. \<not> isl (create_area (fst b) (snd b))) bs"

text \<open>
  What the loop does to \<open>area_defs\<close>, block by block: the record is built, then appended
  (no region requested) or stored in the slot of the first occurrence of its id.
\<close>

fun fill :: "string list \<Rightarrow> AreaConfig option list \<Rightarrow> (string \<times> string) list
    \<Rightarrow> exn + AreaConfig option list" where
  "fill regions defs [] = Inr defs"
| "fill regions defs (b # bs) =
     bind_exn (create_area (fst b) (snd b)) (\<lambda>a.
       if regions = [] then fill regions (defs @ [Some a]) bs
       else (case py_index regions (fst b) of
               None \<Rightarrow> Inl (ValueError (fst b))
             | Some k \<Rightarrow> bind_exn (list_set defs k (Some a)) (\<lambda>defs'. fill regions defs' bs)))"

definition scanner_of :: "scan_state \<Rightarrow> scanner" where
  "scanner_of st = (if in_area st then InBlock (cur_id st) (area_content st) else Scanning)"

text \<open>The \<open>area_defs\<close> with which the loop ends, or its exception.\<close>

definition defs_of :: "exn + scan_state \<Rightarrow> exn + AreaConfig option list" where
  "defs_of r = (case r of Inl e \<Rightarrow> Inl e | Inr st \<Rightarrow> Inr (area_defs st))"

section \<open>The normalizer of the specification\<close>

text \<open>
  The spec's \<open>ProjArgNormalizer.normalize\<close> (4.1), written from its words alone, on a
  sequence of tokens, with strings as keys and values: any leading \<open>+\<close> of a token is
  stripped; the token is split at its first \<open>=\<close>, the text before it is the key and the
  text after it the value; a token with no \<open>=\<close> is a format error; the pairs are collected
  into an insertion-ordered mapping in which a later duplicate key overwrites the earlier
  value.
\<close>

definition strip_plus :: "string \<Rightarrow> string" where
  "strip_plus t = dropWhile (\<lambda>c. c = CHR ''+'') t"

fun normalize_from :: "(string \<times> string) list \<Rightarrow> string list \<Rightarrow> exn + (string \<times> string) list" where
  "normalize_from m [] = Inr m"
| "normalize_from m (t # ts) =
     (case split_first CHR ''='' (strip_plus t) of
        None \<Rightarrow> Inl (FormatError (strip_plus t))
      | Some (k, v) \<Rightarrow> normalize_from (AList.update k v m) ts)"

definition normalize_spec :: "string list \<Rightarrow> exn + (string \<times> string) list" where
  "normalize_spec tokens = normalize_from [] tokens"

text \<open>A mapping from strings to strings as a parsed configuration: every value a single string.\<close>

definition scalars :: "(string \<times> string) list \<Rightarrow> config" where
  "scalars m = map (\<lambda>(k, v). (k, Scalar v)) m"

definition as_config :: "exn + (string \<times> string) list \<Rightarrow> exn + config" where
  "as_config r = (case r of Inl e \<Rightarrow> Inl e | Inr m \<Rightarrow> Inr (scalars m))"

text \<open>A plain token: not empty, with no whitespace and no comma in it.\<close>

definition plain :: "string \<Rightarrow> bool" where
  "plain t = (t \<noteq> [] \<and> list_all (\<lambda>c. \<not> isspace c \<and> c \<noteq> CHR '','') t)"

section \<open>Index maps\<close>

text \<open>
  A one-dimensional numpy array is a list, a two-dimensional one the list of its rows.
  \<open>np_item\<close> is \<^verbatim>\<open>a[i]\<close> for an integer: a negative index counts from the end, an index
  out of range is an IndexError. \<open>np_take\<close> is \<^verbatim>\<open>a[index_array]\<close>, \<open>np_select\<close> is
  \<^verbatim>\<open>a[mask]\<close> for a boolean mask of the length of \<open>a\<close>, \<open>np_assign\<close> is
  \<^verbatim>\<open>a[mask] = v\<close>, and \<open>np_reshape\<close> is \<^verbatim>\<open>a.reshape(shape)\<close>, a ValueError when the
  sizes differ.
\<close>

definition np_item :: "'a list \<Rightarrow> int \<Rightarrow> exn + 'a" where
  "np_item xs i =
     (if 0 \<le> i \<and> i < int (length xs) then Inr (xs ! nat i)
      else if i < 0 \<and> - int (length xs) \<le> i then Inr (xs ! nat (int (length xs) + i))
      else Inl IndexError)"

definition np_take :: "'a list \<Rightarrow> int list \<Rightarrow> exn + 'a list" where
  "np_take xs idx = map_exn (np_item xs) idx"

definition np_select :: "'a list \<Rightarrow> bool list \<Rightarrow> exn + 'a list" where
  "np_select xs msk =
     (if length msk = length xs then Inr (map fst (filter snd (zip xs msk)))
      else Inl IndexError)"

definition np_assign :: "'a list \<Rightarrow> bool list \<Rightarrow> 'a \<Rightarrow> 'a list" where
  "np_assign xs msk v = map (\<lambda>(x, m). if m then v else x) (zip xs msk)"

definition np_reshape :: "'a list \<Rightarrow> nat \<times> nat \<Rightarrow> exn + 'a list list" where
  "np_reshape xs shape =
     (if length xs = fst shape * snd shape
      then Inr (map (\<lambda>i. take (snd shape) (drop (i * snd shape) xs)) [0..<fst shape])
      else Inl (ValueError ''reshape''))"

text \<open>
  \<^verbatim>\<open>np.fromfunction(lambda i, j: i, shape).ravel()\<close> and the same for \<open>j\<close>: the row and
  the column of every position of a grid, in row-major order.
\<close>

definition grid_rows :: "nat \<times> nat \<Rightarrow> int list" where
  "grid_rows shape = concat (map (\<lambda>i. map (\<lambda>j. int i) [0..<snd shape]) [0..<fst shape])"

definition grid_cols :: "nat \<times> nat \<Rightarrow> int list" where
  "grid_cols shape = concat (map (\<lambda>i. map (\<lambda>j. int j) [0..<snd shape]) [0..<fst shape])"

text \<open>\<^verbatim>\<open>valid_index.sum()\<close>: the number of valid source pixels.\<close>

definition count_valid :: "bool list \<Rightarrow> int" where
  "count_valid valid_index = int (length (filter (\<lambda>b. b) valid_index))"

text \<open>
  \<^verbatim>\<open>generate_nearest_neighbour_linesample_arrays\<close>. The spatial query
  \<^verbatim>\<open>swath.get_neighbour_info\<close> is outside the sources: the function takes what the query
  returns, the mask \<open>valid_index\<close> over the flattened source pixels and \<open>index_array\<close>,
  one entry per flattened target pixel (the distances are not used). The areas give their
  shapes.
\<close>

definition generate_nearest_neighbour_linesample_arrays ::
  "nat \<times> nat \<Rightarrow> nat \<times> nat \<Rightarrow> bool list \<times> int list
    \<Rightarrow> exn + (int list list \<times> int list list)" where
  "generate_nearest_neighbour_linesample_arrays source_shape target_shape neighbour_info =
     (let valid_index = fst neighbour_info;
          index_array = snd neighbour_info;
          rows = grid_rows source_shape;
          cols = grid_cols source_shape
      in bind_exn (np_select rows valid_index) (\<lambda>rows_valid.
         bind_exn (np_select cols valid_index) (\<lambda>cols_valid.
         let number_of_valid_points = count_valid valid_index;
             index_mask = map (\<lambda>i. i = number_of_valid_points) index_array;
             index_array' = np_assign index_array index_mask 0
         in bind_exn (np_take rows_valid index_array') (\<lambda>row_sample.
            bind_exn (np_take cols_valid index_array') (\<lambda>col_sample.
            let row_sample' = np_assign row_sample index_mask (- 1);
                col_sample' = np_assign col_sample index_mask (- 1)
            in bind_exn (np_reshape row_sample' target_shape) (\<lambda>row_indices.
               bind_exn (np_reshape col_sample' target_shape) (\<lambda>col_indices.
                 Inr (row_indices, col_indices))))))))"

section \<open>An example file\<close>

text \<open>
  The lines of a block in the file format of the spec (section 6), with the description as
  a parameter; the block with its \<^verbatim>\<open>REGION\<close> line and its terminator; and the record
  that \<^verbatim>\<open>_create_area\<close> builds from it.
\<close>

definition block_body :: "string \<Rightarrow> string list" where
  "block_body nm =
     [''  NAME: '' @ nm @ ''\<newline>'', ''  PCS_ID: ps\<newline>'',
      ''  PCS_DEF: proj=stere, lat_0=90\<newline>'', ''  XSIZE: 10\<newline>'', ''  YSIZE: 20\<newline>'',
      ''  AREA_EXTENT: (0, 0, 100, 200)\<newline>'']"

definition area_block :: "string \<Rightarrow> string \<Rightarrow> string list" where
  "area_block rid nm = (''REGION: '' @ rid @ '' {\<newline>'') # block_body nm @ [''};\<newline>'']"

definition example_area :: "string \<Rightarrow> string \<Rightarrow> AreaConfig" where
  "example_area rid nm =
     \<lparr>area_id = rid, name = nm, proj_id = Scalar ''ps'',
      proj_dict = [(''proj'', Scalar ''stere''), (''lat_0'', Scalar ''90'')],
      x_size = 10, y_size = 20, area_extent = [0, 0, 100, 200]\<rparr>"



section \<open>Basic facts\<close>

lemma bind_exn_simps [simp]:
  "bind_exn (Inl e) f = Inl e"
  "bind_exn (Inr x) f = f x"
  by (simp_all add: bind_exn_def)

lemma bind_exn_Inr_iff:
  "bind_exn r f = Inr y \<longleftrightarrow> (\<exists>x. r = Inr x \<and> f x = Inr y)"
  by (cases r) simp_all



section \<open>Records built from a dict\<close>



section \<open>The file handle\<close>

text \<open>
  Claim C2. The claim is that the file handle is closed on every exit path. The source
  calls \<^verbatim>\<open>area_file.close()\<close> after the loop, with no \<^verbatim>\<open>try\<close>/\<^verbatim>\<open>finally\<close> and no
  \<^verbatim>\<open>with\<close>: when \<^verbatim>\<open>_create_area\<close> raises inside the loop the call is left with the handle
  open. Here a block without content is completed, the lookup of NAME raises KeyError, and
  the handle stays open.
\<close>

theorem parse_failure_leaves_file_open:
  "parse_area_file [''areas.cfg'' \<mapsto> [''REGION: a {\<newline>'', ''};\<newline>''] ] ''areas.cfg'' []
     = (Opened, Inl (KeyError ''NAME''))"
  by code_simp

section \<open>First positions in a list\<close>

lemma py_index_None_iff: "py_index xs x = None \<longleftrightarrow> x \<notin> set xs"
  by (induction xs) auto

lemma py_index_Some:
  "py_index xs x = Some k \<Longrightarrow> k < length xs \<and> xs ! k = x \<and> (\<forall>j<k. xs ! j \<noteq> x)"
proof (induction xs arbitrary: k)
  case Nil
  then show ?case by simp
next
  case (Cons y ys)
  show ?case
  proof (cases "y = x")
    case True
    with Cons.prems show ?thesis by simp
  next
    case False
    with Cons.prems obtain k' where k': "py_index ys x = Some k'" "k = Suc k'"
      by auto
    from Cons.IH [OF k'(1)] False k'(2) show ?thesis
      by (auto simp: nth_Cons split: nat.splits)
  qed
qed

lemma py_index_distinct:
  "distinct xs \<Longrightarrow> k < length xs \<Longrightarrow> py_index xs (xs ! k) = Some k"
proof (induction xs arbitrary: k)
  case Nil
  then show ?case by simp
next
  case (Cons y ys)
  then show ?case by (cases k) auto
qed

section \<open>The loop refines the scanner of the specification\<close>

lemma defs_of_simps [simp]:
  "defs_of (Inl e) = Inl e" "defs_of (Inr st) = Inr (area_defs st)"
  by (simp_all add: defs_of_def)

lemma scan_lines_fill_all:
  "defs_of (scan_lines [] True st ls)
     = fill [] (area_defs st) (spec_blocks [] (scanner_of st) ls)"
proof (induction ls arbitrary: st)
  case Nil
  then show ?case by simp
next
  case (Cons l ls)
  show ?case
    by (auto simp: Cons.IH scan_line_def scanner_of_def selected_def Let_def bind_exn_def
        split: sum.splits)
qed

lemma scan_lines_fill_some:
  assumes "al \<noteq> []"
  shows "defs_of (scan_lines al False st ls)
     = fill al (area_defs st) (spec_blocks al (scanner_of st) ls)"
proof (induction ls arbitrary: st)
  case Nil
  then show ?case by simp
next
  case (Cons l ls)
  show ?case
    using assms
    by (auto simp: Cons.IH scan_line_def scanner_of_def selected_def Let_def bind_exn_def
        split: sum.splits option.splits)
qed

lemma scan_lines_fill:
  "defs_of (scan_lines al (length al = 0) st ls)
     = fill al (area_defs st) (spec_blocks al (scanner_of st) ls)"
  by (cases "al = []") (simp_all add: scan_lines_fill_all scan_lines_fill_some)

section \<open>Slots after the scan\<close>

lemma fill_slots:
  assumes "fill al defs bs = Inr defs'" "al \<noteq> []" "length defs = length al"
  shows "length defs' = length al \<and>
    (\<forall>k<length al. defs' ! k =
       (if py_index al (al ! k) = Some k then
          (case map_of (rev bs) (al ! k) of
             None \<Rightarrow> defs ! k
           | Some c \<Rightarrow> (case create_area (al ! k) c of Inl e \<Rightarrow> None | Inr a \<Rightarrow> Some a))
        else defs ! k))"
  using assms
proof (induction bs arbitrary: defs)
  case Nil
  then show ?case by simp
next
  case (Cons b bs)
  from Cons.prems(1) obtain a where a: "create_area (fst b) (snd b) = Inr a"
    by (auto simp: bind_exn_Inr_iff)
  from Cons.prems(1,2) a obtain i where i: "py_index al (fst b) = Some i"
    by (auto split: option.splits)
  from py_index_Some [OF i] have il: "i < length al" and ib: "al ! i = fst b"
    and ifirst: "\<forall>j<i. al ! j \<noteq> fst b" by auto
  from Cons.prems a i il have rest: "fill al (defs[i := Some a]) bs = Inr defs'"
    by (simp add: list_set_def)
  have len: "length (defs[i := Some a]) = length al"
    using Cons.prems(3) by simp
  note IH = Cons.IH [OF rest Cons.prems(2) len]
  show ?case
  proof (intro conjI allI impI)
    show "length defs' = length al" using IH by simp
  next
    fix k assume k: "k < length al"
    have self: "py_index al (al ! i) = Some i" using i ib by simp
    show "defs' ! k =
       (if py_index al (al ! k) = Some k then
          (case map_of (rev (b # bs)) (al ! k) of
             None \<Rightarrow> defs ! k
           | Some c \<Rightarrow> (case create_area (al ! k) c of Inl e \<Rightarrow> None | Inr a \<Rightarrow> Some a))
        else defs ! k)"
    proof (cases "py_index al (al ! k) = Some k")
      case False
      then have "k \<noteq> i" using self by auto
      with IH k False show ?thesis by simp
    next
      case True
      show ?thesis
      proof (cases "map_of (rev bs) (al ! k)")
        case (Some c)
        with IH k True show ?thesis
          by (simp add: map_add_def)
      next
        case None
        show ?thesis
        proof (cases "al ! k = fst b")
          case eq: True
          with True i have "k = i" by simp
          with IH k True None a eq Cons.prems(3) il show ?thesis
            by (cases b) (simp add: map_add_def)
        next
          case neq: False
          then have "k \<noteq> i" using ib by auto
          with IH k True None neq show ?thesis
            by (cases b) (simp add: map_add_def)
        qed
      qed
    qed
  qed
qed

lemma fill_returns:
  assumes "al \<noteq> []" "length defs = length al" "fst ` set bs \<subseteq> set al" "all_build bs"
  shows "\<exists>defs'. fill al defs bs = Inr defs'"
  using assms
proof (induction bs arbitrary: defs)
  case Nil
  then show ?case by simp
next
  case (Cons b bs)
  from Cons.prems(4) obtain a where a: "create_area (fst b) (snd b) = Inr a"
    by (cases "create_area (fst b) (snd b)") (auto simp: all_build_def)
  from Cons.prems(3) obtain i where i: "py_index al (fst b) = Some i"
    using py_index_None_iff [of al "fst b"] by (cases "py_index al (fst b)") auto
  from py_index_Some [OF i] have il: "i < length al" by simp
  have "\<exists>defs'. fill al (defs[i := Some a]) bs = Inr defs'"
    using Cons.prems by (intro Cons.IH) (auto simp: all_build_def)
  with a i il Cons.prems(1,2) show ?case
    by (simp add: list_set_def)
qed

section \<open>Completed blocks\<close>

lemma spec_blocks_selected:
  "b \<in> set (spec_blocks al s ls) \<Longrightarrow>
     selected al (fst b) \<or> (\<exists>c. s = InBlock (fst b) c)"
  by (induction al s ls rule: spec_blocks.induct) (auto split: if_splits)

lemma blocks_selected: "b \<in> set (blocks al ls) \<Longrightarrow> selected al (fst b)"
  using spec_blocks_selected [of b al Scanning ls] by (simp add: blocks_def)

lemma block_ids_requested: "al \<noteq> [] \<Longrightarrow> block_ids al ls \<subseteq> set al"
  using blocks_selected by (fastforce simp: block_ids_def selected_def)

lemma spec_blocks_append:
  "spec_blocks al s (xs @ ys) = spec_blocks al s xs @ spec_blocks al (spec_state al s xs) ys"
  by (induction al s xs rule: spec_blocks.induct) auto

lemma spec_blocks_unterminated:
  "\<forall>l\<in>set ls. \<not> py_in ''};'' l \<Longrightarrow> spec_blocks al s ls = []"
  by (induction al s ls rule: spec_blocks.induct) auto

section \<open>The final check\<close>

lemma check_found_Inr:
  "check_found f names ds = Inr as \<Longrightarrow> ds = map Some as"
proof (induction f names ds arbitrary: as rule: check_found.induct)
  case (2 fname names a ds)
  then show ?case by (auto simp: bind_exn_Inr_iff)
qed simp_all

lemma check_found_first_empty:
  assumes "length names = length ds" "k < length ds" "ds ! k = None" "\<forall>j<k. ds ! j \<noteq> None"
  shows "check_found f names ds = Inl (AreaNotFound (names ! k) f)"
  using assms
proof (induction f names ds arbitrary: k rule: check_found.induct)
  case (1 fname names)
  then show ?case by simp
next
  case (2 fname names a ds)
  then obtain n ns where names: "names = n # ns" by (cases names) auto
  from 2 obtain k' where k: "k = Suc k'" by (cases k) auto
  have "check_found fname (tl names) ds = Inl (AreaNotFound (tl names ! k') fname)"
    using 2 k names by (intro "2.IH") auto
  with names k show ?case by simp
next
  case (3 fname ds)
  then show ?case by simp
next
  case (4 fname n ns ds)
  then have "k = 0" by (cases k) auto
  then show ?case by simp
qed

section \<open>The call in terms of the completed blocks\<close>

lemma parse_area_file_blocks:
  "parse_area_file fs path al =
     (case fs path of
        None \<Rightarrow> (Unopened, Inl (IOError path))
      | Some lines \<Rightarrow>
          (case fill al (map (\<lambda>i. None) al) (blocks al lines) of
             Inl e \<Rightarrow> (Opened, Inl e)
           | Inr ds \<Rightarrow> (Closed, if al \<noteq> [] then check_found path al ds else Inr (present ds))))"
proof (cases "fs path")
  case None
  then show ?thesis by (simp add: parse_area_file_def)
next
  case (Some lines)
  define st0 where "st0 = \<lparr>in_area = False, cur_id = [], area_content = [],
      area_defs = (if length al = 0 then [] else map (\<lambda>i. None) al)\<rparr>"
  have defs0: "area_defs st0 = map (\<lambda>i. None) al"
    by (simp add: st0_def)
  have "scanner_of st0 = Scanning"
    by (simp add: scanner_of_def st0_def)
  with scan_lines_fill [of al st0 lines] defs0
  have scan: "defs_of (scan_lines al (length al = 0) st0 lines)
      = fill al (map (\<lambda>i. None) al) (blocks al lines)"
    by (simp add: blocks_def)
  have unfolded: "parse_area_file fs path al =
      (case scan_lines al (length al = 0) st0 lines of
         Inl e \<Rightarrow> (Opened, Inl e)
       | Inr st \<Rightarrow> (Closed, if al \<noteq> [] then check_found path al (area_defs st)
                            else Inr (present (area_defs st))))"
    by (simp add: parse_area_file_def Some st0_def Let_def)
  show ?thesis
  proof (cases "scan_lines al (length al = 0) st0 lines")
    case (Inl e)
    with scan have "fill al (map (\<lambda>i. None) al) (blocks al lines) = Inl e" by simp
    with Inl unfolded Some show ?thesis by simp
  next
    case (Inr st)
    with scan have "fill al (map (\<lambda>i. None) al) (blocks al lines) = Inr (area_defs st)"
      by simp
    with Inr unfolded Some show ?thesis by simp
  qed
qed

lemma create_area_id: "create_area i c = Inr a \<Longrightarrow> area_id a = i"
  by (auto simp: create_area_def bind_exn_Inr_iff Let_def)

section \<open>Returned records\<close>

lemma parse_success:
  assumes "regions \<noteq> []" "parse_area_file fs path regions = (h, Inr defs)"
  shows "\<exists>lines. fs path = Some lines \<and> h = Closed \<and> length defs = length regions \<and>
     (\<forall>k<length regions. py_index regions (regions ! k) = Some k \<and>
        (\<exists>c. map_of (rev (blocks regions lines)) (regions ! k) = Some c \<and>
             create_area (regions ! k) c = Inr (defs ! k)))"
proof -
  from assms(2) obtain lines where lines: "fs path = Some lines"
    by (cases "fs path") (auto simp: parse_area_file_blocks)
  from assms lines obtain ds where
    ds: "fill regions (map (\<lambda>i. None) regions) (blocks regions lines) = Inr ds"
    and chk: "check_found path regions ds = Inr defs" and h: "h = Closed"
    by (auto simp: parse_area_file_blocks split: sum.splits)
  from check_found_Inr [OF chk] have dsdefs: "ds = map Some defs" .
  from fill_slots [OF ds assms(1)] have len: "length ds = length regions"
    and slots: "\<And>k. k < length regions \<Longrightarrow> ds ! k =
       (if py_index regions (regions ! k) = Some k then
          (case map_of (rev (blocks regions lines)) (regions ! k) of
             None \<Rightarrow> map (\<lambda>i. None) regions ! k
           | Some c \<Rightarrow> (case create_area (regions ! k) c of Inl e \<Rightarrow> None | Inr a \<Rightarrow> Some a))
        else map (\<lambda>i. None) regions ! k)"
    by simp_all
  have "py_index regions (regions ! k) = Some k \<and>
        (\<exists>c. map_of (rev (blocks regions lines)) (regions ! k) = Some c \<and>
             create_area (regions ! k) c = Inr (defs ! k))" if k: "k < length regions" for k
  proof -
    have "ds ! k = Some (defs ! k)" using dsdefs len k by simp
    with slots [OF k] k show ?thesis
      by (auto split: if_splits option.splits sum.splits)
  qed
  with lines h len dsdefs show ?thesis by auto
qed

text \<open>
  Whenever names are requested and records are returned, the ids of the records are the
  requested names, in requested order.
\<close>

lemma returned_ids:
  assumes "regions \<noteq> []" "parse_area_file fs path regions = (h, Inr defs)"
  shows "map area_id defs = regions"
proof -
  from parse_success [OF assms] obtain lines where
    len: "length defs = length regions" and
    built: "\<And>k. k < length regions \<Longrightarrow>
        \<exists>c. create_area (regions ! k) c = Inr (defs ! k)"
    by blast
  show ?thesis
  proof (rule nth_equalityI)
    show "length (map area_id defs) = length regions" using len by simp
  next
    fix k assume "k < length (map area_id defs)"
    then have k: "k < length regions" using len by simp
    from built [OF k] obtain c where "create_area (regions ! k) c = Inr (defs ! k)" ..
    from create_area_id [OF this] k len show "map area_id defs ! k = regions ! k" by simp
  qed
qed

text \<open>
  Claim C1, as the code has it. When regions are requested and the call returns, the record
  in the slot of every requested name is the one built from the last completed block with
  that id (\<open>map_of\<close> of the reversed block list finds the last one): each block with a
  requested id is built and stored in the slot of its name, so a later block with the same
  id overwrites what an earlier one stored.
\<close>

theorem last_match_wins:
  assumes "regions \<noteq> []" "fs path = Some lines"
    "parse_area_file fs path regions = (h, Inr defs)" "k < length regions"
  shows "\<exists>c. map_of (rev (blocks regions lines)) (regions ! k) = Some c \<and>
             create_area (regions ! k) c = Inr (defs ! k)"
  using parse_success [OF assms(1,3)] assms(2,4) by auto

section \<open>Missing areas\<close>

lemma all_build_lookup:
  assumes "all_build bs" "map_of (rev bs) i = Some c"
  shows "\<exists>a. create_area i c = Inr a"
proof -
  from assms(2) have "(i, c) \<in> set bs"
    using map_of_SomeD by fastforce
  with assms(1) show ?thesis
    by (cases "create_area i c") (auto simp: all_build_def list_all_iff)
qed

lemma slots_after_scan:
  assumes "regions \<noteq> []" "all_build (blocks regions lines)"
  shows "\<exists>ds. fill regions (map (\<lambda>i. None) regions) (blocks regions lines) = Inr ds \<and>
     length ds = length regions \<and>
     (\<forall>k<length regions. ds ! k = None \<longleftrightarrow>
        py_index regions (regions ! k) \<noteq> Some k \<or> regions ! k \<notin> block_ids regions lines)"
proof -
  have "fst ` set (blocks regions lines) \<subseteq> set regions"
    using block_ids_requested [OF assms(1)] by (simp add: block_ids_def)
  from fill_returns [OF assms(1) _ this assms(2), of "map (\<lambda>i. None) regions"]
  obtain ds where ds: "fill regions (map (\<lambda>i. None) regions) (blocks regions lines) = Inr ds"
    by auto
  note slots = fill_slots [OF ds assms(1)]
  have "(ds ! k = None) \<longleftrightarrow>
        (py_index regions (regions ! k) \<noteq> Some k \<or> regions ! k \<notin> block_ids regions lines)"
    if k: "k < length regions" for k
  proof (cases "map_of (rev (blocks regions lines)) (regions ! k)")
    case None
    then have "regions ! k \<notin> block_ids regions lines"
      by (simp add: map_of_eq_None_iff block_ids_def)
    with slots k None show ?thesis by simp
  next
    case (Some c)
    then have "regions ! k \<in> block_ids regions lines"
      using map_of_SomeD [OF Some] by (force simp: block_ids_def)
    moreover from all_build_lookup [OF assms(2) Some] obtain a
      where "create_area (regions ! k) c = Inr a" ..
    ultimately show ?thesis using slots k Some by simp
  qed
  with ds slots show ?thesis by auto
qed

section \<open>A name requested twice\<close>

lemma py_index_append:
  "x \<in> set xs \<Longrightarrow> py_index (xs @ ys) x = py_index xs x"
  by (induction xs) auto

lemma py_index_all_first_distinct:
  assumes "\<forall>k<length xs. py_index xs (xs ! k) = Some k"
  shows "distinct xs"
proof -
  have "i = j" if "i < length xs" "j < length xs" "xs ! i = xs ! j" for i j
    using assms that by (metis option.inject)
  then show ?thesis by (simp add: distinct_conv_nth) blast
qed

text \<open>
  Claim C9, as the code has it. A request with a repeated name never returns records:
  blocks fill the slot of the first occurrence only, so the slot of a later occurrence
  stays empty. When the file is read, every completed block builds, and every name
  requested before the first repeated occurrence (the names \<open>pre\<close>, distinct, with the
  repeated name \<open>n\<close> among them) has a completed block, the call fails with AreaNotFound
  for the repeated name, although a block with that id exists.
\<close>

theorem duplicate_request_fails:
  "(\<not> distinct regions \<longrightarrow> (\<forall>h defs. parse_area_file fs path regions \<noteq> (h, Inr defs)))
   \<and> (n \<in> set pre \<longrightarrow> distinct pre \<longrightarrow> fs path = Some lines \<longrightarrow>
        all_build (blocks (pre @ n # post) lines) \<longrightarrow>
        set pre \<subseteq> block_ids (pre @ n # post) lines \<longrightarrow>
        parse_area_file fs path (pre @ n # post) = (Closed, Inl (AreaNotFound n path)))"
proof (intro conjI impI allI)
  fix h defs
  assume nd: "\<not> distinct regions"
  show "parse_area_file fs path regions \<noteq> (h, Inr defs)"
  proof
    assume ok: "parse_area_file fs path regions = (h, Inr defs)"
    from nd have "regions \<noteq> []" by auto
    from parse_success [OF this ok]
    have "\<forall>k<length regions. py_index regions (regions ! k) = Some k" by blast
    from py_index_all_first_distinct [OF this] nd show False by simp
  qed
next
  let ?regions = "pre @ n # post"
  assume n: "n \<in> set pre" and dist: "distinct pre" and lines: "fs path = Some lines"
    and build: "all_build (blocks ?regions lines)"
    and found: "set pre \<subseteq> block_ids ?regions lines"
  have ne: "?regions \<noteq> []" by simp
  from slots_after_scan [OF ne build] obtain ds where
    ds: "fill ?regions (map (\<lambda>i. None) ?regions) (blocks ?regions lines) = Inr ds"
    and len: "length ds = length ?regions"
    and empty: "\<And>k. k < length ?regions \<Longrightarrow> ds ! k = None \<longleftrightarrow>
        py_index ?regions (?regions ! k) \<noteq> Some k \<or> ?regions ! k \<notin> block_ids ?regions lines"
    by blast
  let ?k = "length pre"
  have k: "?k < length ?regions" and nk: "?regions ! ?k = n" by simp_all
  from n obtain j where j: "py_index pre n = Some j"
    using py_index_None_iff [of pre n] by (cases "py_index pre n") auto
  from py_index_Some [OF j] have "j < ?k" by simp
  with j n have "py_index ?regions (?regions ! ?k) \<noteq> Some ?k"
    by (simp add: py_index_append)
  with empty [OF k] have "ds ! ?k = None" by simp
  moreover have "\<forall>i<?k. ds ! i \<noteq> None"
  proof (intro allI impI)
    fix i assume i: "i < ?k"
    then have mem: "pre ! i \<in> set pre" by simp
    have "py_index ?regions (?regions ! i) = Some i"
      using i mem py_index_distinct [OF dist i] by (simp add: nth_append py_index_append)
    moreover have "?regions ! i \<in> block_ids ?regions lines"
      using i mem found by (auto simp: nth_append)
    moreover have "i < length ?regions" using i by simp
    ultimately show "ds ! i \<noteq> None" using empty by blast
  qed
  ultimately have "check_found path ?regions ds = Inl (AreaNotFound (?regions ! ?k) path)"
    using check_found_first_empty [of ?regions ds ?k path] len k by simp
  with ds lines show "parse_area_file fs path ?regions = (Closed, Inl (AreaNotFound n path))"
    by (simp add: parse_area_file_blocks)
qed

section \<open>The first empty slot\<close>

lemma not_distinct_first_repeat:
  "\<not> distinct xs \<Longrightarrow> \<exists>pre m post. xs = pre @ m # post \<and> distinct pre \<and> m \<in> set pre"
proof (induction xs rule: rev_induct)
  case Nil
  then show ?case by simp
next
  case (snoc x xs)
  show ?case
  proof (cases "distinct xs")
    case True
    with snoc.prems have "x \<in> set xs" by simp
    with True show ?thesis by (intro exI [of _ xs] exI [of _ x] exI [of _ "[]"]) simp
  next
    case False
    from snoc.IH [OF this] obtain pre m post where
      "xs = pre @ m # post" "distinct pre" "m \<in> set pre" by blast
    then show ?thesis
      by (intro exI [of _ pre] exI [of _ m] exI [of _ "post @ [x]"]) simp
  qed
qed

lemma first_empty_slot:
  assumes "regions = pre @ n # post" "fs path = Some lines"
    and "all_build (blocks regions lines)"
    and "distinct pre" "set pre \<subseteq> block_ids regions lines"
    and "n \<in> set pre \<or> n \<notin> block_ids regions lines"
  shows "parse_area_file fs path regions = (Closed, Inl (AreaNotFound n path))"
proof -
  have ne: "regions \<noteq> []" using assms(1) by simp
  from slots_after_scan [OF ne assms(3)] obtain ds where
    ds: "fill regions (map (\<lambda>i. None) regions) (blocks regions lines) = Inr ds"
    and len: "length ds = length regions"
    and empty: "\<And>k. k < length regions \<Longrightarrow> ds ! k = None \<longleftrightarrow>
        py_index regions (regions ! k) \<noteq> Some k \<or> regions ! k \<notin> block_ids regions lines"
    by blast
  let ?k = "length pre"
  have k: "?k < length regions" and nk: "regions ! ?k = n" using assms(1) by simp_all
  have "py_index regions n \<noteq> Some ?k" if n: "n \<in> set pre"
  proof -
    from n obtain j where j: "py_index pre n = Some j"
      using py_index_None_iff [of pre n] by (cases "py_index pre n") auto
    from py_index_Some [OF j] have "j < ?k" by simp
    with j n show ?thesis by (simp add: assms(1) py_index_append)
  qed
  with assms(6) empty [OF k] nk have "ds ! ?k = None" by auto
  moreover have "\<forall>i<?k. ds ! i \<noteq> None"
  proof (intro allI impI)
    fix i assume i: "i < ?k"
    then have mem: "pre ! i \<in> set pre" by simp
    have "py_index regions (regions ! i) = Some i"
      using i mem py_index_distinct [OF assms(4) i]
      by (simp add: assms(1) nth_append py_index_append)
    moreover have "regions ! i \<in> block_ids regions lines"
      using i mem assms(5) by (auto simp: assms(1) nth_append)
    moreover have "i < length regions" using i k by simp
    ultimately show "ds ! i \<noteq> None" using empty by blast
  qed
  ultimately have "check_found path regions ds = Inl (AreaNotFound (regions ! ?k) path)"
    using check_found_first_empty [of regions ds ?k path] len k by simp
  with ds assms(2) ne nk show ?thesis
    by (simp add: parse_area_file_blocks)
qed

text \<open>
  Claim C5, as the code has it. Let the file be read and scanned to its end (every completed
  block builds), and let \<open>n\<close> be the first requested name, in requested order, that has no
  completed block: the request is \<open>us @ n # vs\<close> and every name of \<open>us\<close> has one. If no
  name is repeated within \<open>us\<close>, the call closes the file and fails with AreaNotFound
  carrying \<open>n\<close> and the file path, whatever follows \<open>n\<close> in the request. If a name is
  repeated within \<open>us\<close>, the call fails with AreaNotFound for a name of \<open>us\<close>, one that
  did match, and not for \<open>n\<close>.
\<close>

theorem area_not_found_first_missing:
  assumes "regions = us @ n # vs" "fs path = Some lines"
    and "all_build (blocks regions lines)"
    and "set us \<subseteq> block_ids regions lines" "n \<notin> block_ids regions lines"
  shows "(distinct us \<longrightarrow>
           parse_area_file fs path regions = (Closed, Inl (AreaNotFound n path)))
       \<and> (\<not> distinct us \<longrightarrow>
           (\<exists>m. m \<in> set us \<and> m \<in> block_ids regions lines \<and> m \<noteq> n \<and>
              parse_area_file fs path regions = (Closed, Inl (AreaNotFound m path))))"
proof (intro conjI impI)
  assume "distinct us"
  then show "parse_area_file fs path regions = (Closed, Inl (AreaNotFound n path))"
    using first_empty_slot [where fs = fs and path = path and regions = regions and pre = us
        and n = n and post = vs and lines = lines] assms by blast
next
  assume "\<not> distinct us"
  from not_distinct_first_repeat [OF this] obtain pre m post where
    us: "us = pre @ m # post" and pre: "distinct pre" and m: "m \<in> set pre"
    by blast
  have reg: "regions = pre @ m # (post @ n # vs)" using assms(1) us by simp
  have sub: "set pre \<subseteq> block_ids regions lines" using assms(4) us by auto
  have "parse_area_file fs path regions = (Closed, Inl (AreaNotFound m path))"
    using first_empty_slot [where fs = fs and path = path and regions = regions and pre = pre
        and n = m and post = "post @ n # vs" and lines = lines] reg assms(2,3) pre sub m
    by blast
  moreover have "m \<in> set us" using us by simp
  moreover have "m \<in> block_ids regions lines" using sub m by auto
  moreover have "m \<noteq> n" using assms(5) sub m by auto
  ultimately show "\<exists>m. m \<in> set us \<and> m \<in> block_ids regions lines \<and> m \<noteq> n \<and>
      parse_area_file fs path regions = (Closed, Inl (AreaNotFound m path))"
    by blast
qed

section \<open>Requests that resolve\<close>

lemma check_found_filled:
  "\<forall>d\<in>set ds. d \<noteq> None \<Longrightarrow> \<exists>as. check_found f names ds = Inr as"
proof (induction f names ds rule: check_found.induct)
  case (2 fname names a ds)
  then obtain as where "check_found fname (tl names) ds = Inr as" by auto
  then show ?case by simp
qed simp_all

text \<open>
  Claim C6, amended to requests without a repeated name. When one or more distinct names
  are requested and all resolve (the file is read, every requested name has a completed
  block, and every completed block builds), the call closes the file and returns one
  record per requested name, in requested order, whatever the order of the blocks in the
  file: the ids of the records are the requested names, and the record at a position is
  built from the last completed block with the name requested there.
\<close>

theorem requested_order_total:
  assumes "regions \<noteq> []" "distinct regions" "fs path = Some lines"
    and "all_build (blocks regions lines)" "set regions \<subseteq> block_ids regions lines"
  shows "\<exists>defs. parse_area_file fs path regions = (Closed, Inr defs)
      \<and> map area_id defs = regions
      \<and> (\<forall>k<length regions. \<exists>c. map_of (rev (blocks regions lines)) (regions ! k) = Some c
            \<and> create_area (regions ! k) c = Inr (defs ! k))"
proof -
  from slots_after_scan [OF assms(1,4)] obtain ds where
    ds: "fill regions (map (\<lambda>i. None) regions) (blocks regions lines) = Inr ds"
    and len: "length ds = length regions"
    and empty: "\<And>k. k < length regions \<Longrightarrow> ds ! k = None \<longleftrightarrow>
        py_index regions (regions ! k) \<noteq> Some k \<or> regions ! k \<notin> block_ids regions lines"
    by blast
  have "\<forall>d\<in>set ds. d \<noteq> None"
  proof
    fix d assume "d \<in> set ds"
    then obtain k where k: "k < length regions" and d: "d = ds ! k"
      using len by (auto simp: in_set_conv_nth)
    have "regions ! k \<in> block_ids regions lines" using k assms(5) by auto
    with empty [OF k] py_index_distinct [OF assms(2) k] d show "d \<noteq> None" by simp
  qed
  from check_found_filled [OF this] obtain defs where
    "check_found path regions ds = Inr defs" by blast
  with ds assms(1,3) have run: "parse_area_file fs path regions = (Closed, Inr defs)"
    by (simp add: parse_area_file_blocks)
  from parse_success [OF assms(1) run] assms(3)
  have built: "\<forall>k<length regions. \<exists>c. map_of (rev (blocks regions lines)) (regions ! k) = Some c
            \<and> create_area (regions ! k) c = Inr (defs ! k)"
    by auto
  from returned_ids [OF assms(1) run] run built show ?thesis by blast
qed

section \<open>A block without terminator\<close>

lemma present_Some: "present (map Some as) = as"
  by (induction as) auto

lemma fill_all_returns:
  "all_build bs \<Longrightarrow>
     \<exists>as. fill [] defs bs = Inr (defs @ map Some as) \<and> length as = length bs \<and>
       (\<forall>k<length bs. create_area (fst (bs ! k)) (snd (bs ! k)) = Inr (as ! k))"
proof (induction bs arbitrary: defs)
  case Nil
  then show ?case by simp
next
  case (Cons b bs)
  from Cons.prems obtain a where a: "create_area (fst b) (snd b) = Inr a"
    by (cases "create_area (fst b) (snd b)") (auto simp: all_build_def)
  from Cons.prems have "all_build bs" by (simp add: all_build_def)
  from Cons.IH [OF this, of "defs @ [Some a]"] obtain as where
    as: "fill [] (defs @ [Some a]) bs = Inr ((defs @ [Some a]) @ map Some as)"
      "length as = length bs"
      "\<forall>k<length bs. create_area (fst (bs ! k)) (snd (bs ! k)) = Inr (as ! k)"
    by blast
  have "\<forall>k<length (b # bs). create_area (fst ((b # bs) ! k)) (snd ((b # bs) ! k)) = Inr ((a # as) ! k)"
    using a as(3) by (auto simp: nth_Cons split: nat.splits)
  with a as(1,2) show ?case
    by (intro exI [of _ "a # as"]) simp
qed

lemma spec_state_append:
  "spec_state al s (xs @ ys) = spec_state al (spec_state al s xs) ys"
  by (induction al s xs rule: spec_state.induct) auto

lemma spec_state_unterminated:
  "\<forall>l\<in>set ls. \<not> py_in ''};'' l \<Longrightarrow>
     spec_state [] (InBlock i c) ls = InBlock i (c @ concat ls)"
  by (induction ls arbitrary: c) auto

text \<open>
  Claim C8. Let the lines \<open>pre\<close> leave the scanner in \<open>Scanning\<close>, let \<open>hdr\<close> be a
  \<^verbatim>\<open>REGION\<close> line and let no line of \<open>body\<close> contain the terminator. With no region
  requested, the block opened by \<open>hdr\<close> is still open at the end of the input, and the call
  on \<open>pre @ hdr # body\<close> gives what it gives on \<open>pre\<close> alone: the unterminated block adds
  neither a record nor an error. When the blocks of \<open>pre\<close> build, the call returns, with
  the file closed, exactly their records, in file order.
\<close>

theorem unterminated_block_discarded:
  assumes "spec_state [] Scanning pre = Scanning" "py_in ''REGION'' hdr"
    "\<forall>l\<in>set body. \<not> py_in ''};'' l"
  shows "spec_state [] Scanning (pre @ hdr # body) = InBlock (region_id hdr) (concat body)
    \<and> parse_area_file (fs(path \<mapsto> pre @ hdr # body)) path []
        = parse_area_file (fs(path \<mapsto> pre)) path []
    \<and> (all_build (blocks [] pre) \<longrightarrow>
         (\<exists>defs. parse_area_file (fs(path \<mapsto> pre @ hdr # body)) path [] = (Closed, Inr defs)
            \<and> length defs = length (blocks [] pre)
            \<and> (\<forall>k<length defs. create_area (fst (blocks [] pre ! k)) (snd (blocks [] pre ! k))
                  = Inr (defs ! k))))"
proof (intro conjI impI)
  show "spec_state [] Scanning (pre @ hdr # body) = InBlock (region_id hdr) (concat body)"
    using assms by (simp add: spec_state_append selected_def spec_state_unterminated)
next
  have "spec_blocks [] Scanning (hdr # body) = []"
    using assms(3) by (simp add: spec_blocks_unterminated)
  then have same: "blocks [] (pre @ hdr # body) = blocks [] pre"
    using assms(1) by (simp add: blocks_def spec_blocks_append)
  then show eq: "parse_area_file (fs(path \<mapsto> pre @ hdr # body)) path []
        = parse_area_file (fs(path \<mapsto> pre)) path []"
    by (simp add: parse_area_file_blocks)
  assume "all_build (blocks [] pre)"
  from fill_all_returns [OF this, of "[]"] obtain as where
    as: "fill [] [] (blocks [] pre) = Inr (map Some as)" "length as = length (blocks [] pre)"
      "\<forall>k<length (blocks [] pre). create_area (fst (blocks [] pre ! k)) (snd (blocks [] pre ! k))
          = Inr (as ! k)"
    by auto
  then have "parse_area_file (fs(path \<mapsto> pre)) path [] = (Closed, Inr as)"
    by (simp add: parse_area_file_blocks present_Some)
  with eq as(2,3) show "\<exists>defs. parse_area_file (fs(path \<mapsto> pre @ hdr # body)) path []
            = (Closed, Inr defs)
            \<and> length defs = length (blocks [] pre)
            \<and> (\<forall>k<length defs. create_area (fst (blocks [] pre ! k)) (snd (blocks [] pre ! k))
                  = Inr (defs ! k))"
    by auto
qed

section \<open>The claims on the example file\<close>

text \<open>
  Claim C1 as stated says that only the first matching block is used and that later blocks
  with the same id do not change the returned record. It fails on a file with two blocks
  \<open>A\<close> that differ in NAME: the first block with id \<open>A\<close> builds the record named
  \<open>first\<close>, and the call returns the record named \<open>second\<close>.
\<close>

theorem first_match_counterexample:
  "map_of (blocks [''A''] (area_block ''A'' ''first'' @ area_block ''A'' ''second'')) ''A''
      = Some (concat (block_body ''first''))
   \<and> create_area ''A'' (concat (block_body ''first'')) = Inr (example_area ''A'' ''first'')
   \<and> parse_area_file [''areas.cfg'' \<mapsto> area_block ''A'' ''first'' @ area_block ''A'' ''second'']
        ''areas.cfg'' [''A'']
      = (Closed, Inr [example_area ''A'' ''second''])
   \<and> example_area ''A'' ''first'' \<noteq> example_area ''A'' ''second''"
  by code_simp

text \<open>
  Claim C1, the amended statement at a file with two blocks \<open>A\<close>: the record returned
  is the one of the second block.
\<close>

theorem last_match_wins_witness:
  "[''A''] \<noteq> [] \<and> (0::nat) < length [''A'']
   \<and> parse_area_file [''areas.cfg'' \<mapsto> area_block ''A'' ''first'' @ area_block ''A'' ''second'']
        ''areas.cfg'' [''A'']
      = (Closed, Inr [example_area ''A'' ''second''])
   \<and> (\<exists>c. map_of (rev (blocks [''A''] (area_block ''A'' ''first'' @ area_block ''A'' ''second'')))
            ([''A''] ! 0) = Some c
          \<and> create_area ([''A''] ! 0) c = Inr ([example_area ''A'' ''second''] ! 0))"
proof -
  have run: "parse_area_file [''areas.cfg'' \<mapsto> area_block ''A'' ''first'' @ area_block ''A'' ''second'']
        ''areas.cfg'' [''A'']
      = (Closed, Inr [example_area ''A'' ''second''])"
    by code_simp
  have opened: "[''areas.cfg'' \<mapsto> area_block ''A'' ''first'' @ area_block ''A'' ''second''] ''areas.cfg''
      = Some (area_block ''A'' ''first'' @ area_block ''A'' ''second'')"
    by simp
  from last_match_wins [OF _ opened run, of 0] run show ?thesis by simp
qed

text \<open>
  Claim C5 as stated covers every non-empty request. It fails when a name is requested
  twice: for the request \<open>[A, A, B]\<close> on a file whose only block is \<open>A\<close>, and builds, the
  only requested name without a block is \<open>B\<close>, yet the call fails with AreaNotFound for
  \<open>A\<close>, a name that did match.
\<close>

theorem first_unresolved_counterexample:
  "parse_area_file [''areas.cfg'' \<mapsto> area_block ''A'' ''a''] ''areas.cfg'' [''A'', ''A'', ''B'']
      = (Closed, Inl (AreaNotFound ''A'' ''areas.cfg''))
   \<and> blocks [''A'', ''A'', ''B''] (area_block ''A'' ''a'') = [(''A'', concat (block_body ''a''))]
   \<and> create_area ''A'' (concat (block_body ''a'')) = Inr (example_area ''A'' ''a'')"
  by code_simp

text \<open>
  Claim C9 as stated says that a request with a repeated name always fails with
  AreaNotFound for that name. For the request \<open>[X, A, A]\<close> on a file whose only block is
  \<open>A\<close> the call fails with AreaNotFound for \<open>X\<close>, the first empty slot, not for the
  repeated name \<open>A\<close>.
\<close>

theorem duplicate_request_counterexample:
  "parse_area_file [''areas.cfg'' \<mapsto> area_block ''A'' ''a''] ''areas.cfg'' [''X'', ''A'', ''A'']
      = (Closed, Inl (AreaNotFound ''X'' ''areas.cfg''))"
  by code_simp

text \<open>
  Claim C9, the amended statement at the request \<open>[A, A]\<close> on a file with a block \<open>A\<close>.
\<close>

theorem duplicate_request_fails_witness:
  "\<not> distinct [''A'', ''A''] \<and> ''A'' \<in> set [''A''] \<and> distinct [''A'']
   \<and> all_build (blocks ([''A''] @ ''A'' # []) (area_block ''A'' ''a''))
   \<and> set [''A''] \<subseteq> block_ids ([''A''] @ ''A'' # []) (area_block ''A'' ''a'')
   \<and> parse_area_file [''areas.cfg'' \<mapsto> area_block ''A'' ''a''] ''areas.cfg'' ([''A''] @ ''A'' # [])
      = (Closed, Inl (AreaNotFound ''A'' ''areas.cfg''))"
proof -
  have bl: "blocks [''A'', ''A''] (area_block ''A'' ''a'') = [(''A'', concat (block_body ''a''))]"
    by code_simp
  have build: "all_build [(''A'', concat (block_body ''a''))]"
    by code_simp
  have found: "set [''A''] \<subseteq> block_ids [''A'', ''A''] (area_block ''A'' ''a'')"
    by (simp add: block_ids_def bl)
  have opened: "[''areas.cfg'' \<mapsto> area_block ''A'' ''a''] ''areas.cfg'' = Some (area_block ''A'' ''a'')"
    by simp
  from duplicate_request_fails [of "[''A'', ''A'']" "[''areas.cfg'' \<mapsto> area_block ''A'' ''a'']"
      "''areas.cfg''" "''A''" "[''A'']" "area_block ''A'' ''a''" "[]"] bl build found opened
  show ?thesis by simp
qed

text \<open>
  Claim C8 at a file with a complete block \<open>A\<close> followed by a block \<open>B\<close> that is never
  closed: only the record of \<open>A\<close> is returned.
\<close>

theorem unterminated_block_discarded_witness:
  "spec_state [] Scanning (area_block ''A'' ''a'') = Scanning
   \<and> py_in ''REGION'' ''REGION: B {\<newline>''
   \<and> list_all (\<lambda>l. \<not> py_in ''};'' l) (block_body ''b'')
   \<and> parse_area_file [''areas.cfg'' \<mapsto> area_block ''A'' ''a'' @ ''REGION: B {\<newline>'' # block_body ''b'']
        ''areas.cfg'' []
      = (Closed, Inr [example_area ''A'' ''a''])
   \<and> parse_area_file [''areas.cfg'' \<mapsto> area_block ''A'' ''a''] ''areas.cfg'' []
      = (Closed, Inr [example_area ''A'' ''a''])"
proof -
  have st: "spec_state [] Scanning (area_block ''A'' ''a'') = Scanning"
    by code_simp
  have hdr: "py_in ''REGION'' ''REGION: B {\<newline>''"
    by code_simp
  have body: "\<forall>l\<in>set (block_body ''b''). \<not> py_in ''};'' l"
    by code_simp
  have run: "parse_area_file [''areas.cfg'' \<mapsto> area_block ''A'' ''a''] ''areas.cfg'' []
      = (Closed, Inr [example_area ''A'' ''a''])"
    by code_simp
  from unterminated_block_discarded [OF st hdr body, of "Map.empty" "''areas.cfg''"] run st hdr body
  show ?thesis by (simp add: list_all_iff)
qed

text \<open>
  Claim C6 as stated promises the records whenever all requested names resolve. For the
  request \<open>[B, A, B]\<close> on a file with the blocks \<open>A\<close>, \<open>B\<close>, \<open>C\<close> both requested names have
  a completed block that builds, yet the call returns no records: the slot of the second
  \<open>B\<close> stays empty and the call fails with AreaNotFound for \<open>B\<close>.
\<close>

theorem all_resolve_counterexample:
  "blocks [''B'', ''A'', ''B''] (area_block ''A'' ''a'' @ area_block ''B'' ''b'' @ area_block ''C'' ''c'')
      = [(''A'', concat (block_body ''a'')), (''B'', concat (block_body ''b''))]
   \<and> create_area ''A'' (concat (block_body ''a'')) = Inr (example_area ''A'' ''a'')
   \<and> create_area ''B'' (concat (block_body ''b'')) = Inr (example_area ''B'' ''b'')
   \<and> parse_area_file
        [''areas.cfg'' \<mapsto> area_block ''A'' ''a'' @ area_block ''B'' ''b'' @ area_block ''C'' ''c'']
        ''areas.cfg'' [''B'', ''A'', ''B'']
      = (Closed, Inl (AreaNotFound ''B'' ''areas.cfg''))"
  by code_simp

text \<open>
  Claim C6, the amended statement at the example of the spec: the names \<open>[B, A]\<close>
  requested from a file with the blocks \<open>A\<close>, \<open>B\<close>, \<open>C\<close> give the records of \<open>B\<close> and
  \<open>A\<close>, in this order.
\<close>

theorem requested_order_total_witness:
  "[''B'', ''A''] \<noteq> [] \<and> distinct [''B'', ''A'']
   \<and> all_build (blocks [''B'', ''A'']
        (area_block ''A'' ''a'' @ area_block ''B'' ''b'' @ area_block ''C'' ''c''))
   \<and> set [''B'', ''A''] \<subseteq> block_ids [''B'', ''A'']
        (area_block ''A'' ''a'' @ area_block ''B'' ''b'' @ area_block ''C'' ''c'')
   \<and> parse_area_file
        [''areas.cfg'' \<mapsto> area_block ''A'' ''a'' @ area_block ''B'' ''b'' @ area_block ''C'' ''c'']
        ''areas.cfg'' [''B'', ''A'']
      = (Closed, Inr [example_area ''B'' ''b'', example_area ''A'' ''a''])
   \<and> map area_id [example_area ''B'' ''b'', example_area ''A'' ''a''] = [''B'', ''A'']"
proof -
  have bl: "blocks [''B'', ''A'']
        (area_block ''A'' ''a'' @ area_block ''B'' ''b'' @ area_block ''C'' ''c'')
      = [(''A'', concat (block_body ''a'')), (''B'', concat (block_body ''b''))]"
    by code_simp
  have build: "all_build [(''A'', concat (block_body ''a'')), (''B'', concat (block_body ''b''))]"
    by code_simp
  have found: "set [''B'', ''A''] \<subseteq> block_ids [''B'', ''A'']
        (area_block ''A'' ''a'' @ area_block ''B'' ''b'' @ area_block ''C'' ''c'')"
    by (simp add: block_ids_def bl)
  have opened: "[''areas.cfg'' \<mapsto> area_block ''A'' ''a'' @ area_block ''B'' ''b'' @ area_block ''C'' ''c'']
      ''areas.cfg'' = Some (area_block ''A'' ''a'' @ area_block ''B'' ''b'' @ area_block ''C'' ''c'')"
    by simp
  have run: "parse_area_file
        [''areas.cfg'' \<mapsto> area_block ''A'' ''a'' @ area_block ''B'' ''b'' @ area_block ''C'' ''c'']
        ''areas.cfg'' [''B'', ''A'']
      = (Closed, Inr [example_area ''B'' ''b'', example_area ''A'' ''a''])"
    by code_simp
  from requested_order_total [where regions = "[''B'', ''A'']"
      and fs = "[''areas.cfg'' \<mapsto> area_block ''A'' ''a'' @ area_block ''B'' ''b'' @ area_block ''C'' ''c'']"
      and path = "''areas.cfg''"
      and lines = "area_block ''A'' ''a'' @ area_block ''B'' ''b'' @ area_block ''C'' ''c''"]
    bl build found opened run
  show ?thesis by simp
qed

text \<open>
  Claim C5, the amended statement on a file with the blocks \<open>A\<close> and \<open>D\<close>. For the request
  \<open>[A, B, A]\<close> the first name without a block is \<open>B\<close>, no name is repeated before it, and
  \<open>B\<close> is reported although \<open>A\<close> is requested once more after it. For the request
  \<open>[A, A, B]\<close> the name \<open>A\<close> is repeated before \<open>B\<close>, and \<open>A\<close> is reported.
\<close>

theorem area_not_found_first_missing_witness:
  "[''A'', ''B'', ''A''] = [''A''] @ ''B'' # [''A''] \<and> distinct [''A'']
   \<and> all_build (blocks [''A'', ''B'', ''A''] (area_block ''A'' ''a'' @ area_block ''D'' ''d''))
   \<and> set [''A''] \<subseteq> block_ids [''A'', ''B'', ''A''] (area_block ''A'' ''a'' @ area_block ''D'' ''d'')
   \<and> ''B'' \<notin> block_ids [''A'', ''B'', ''A''] (area_block ''A'' ''a'' @ area_block ''D'' ''d'')
   \<and> parse_area_file [''areas.cfg'' \<mapsto> area_block ''A'' ''a'' @ area_block ''D'' ''d'']
        ''areas.cfg'' [''A'', ''B'', ''A'']
      = (Closed, Inl (AreaNotFound ''B'' ''areas.cfg''))
   \<and> [''A'', ''A'', ''B''] = [''A'', ''A''] @ ''B'' # [] \<and> \<not> distinct [''A'', ''A'']
   \<and> all_build (blocks [''A'', ''A'', ''B''] (area_block ''A'' ''a'' @ area_block ''D'' ''d''))
   \<and> set [''A'', ''A''] \<subseteq> block_ids [''A'', ''A'', ''B''] (area_block ''A'' ''a'' @ area_block ''D'' ''d'')
   \<and> ''B'' \<notin> block_ids [''A'', ''A'', ''B''] (area_block ''A'' ''a'' @ area_block ''D'' ''d'')
   \<and> parse_area_file [''areas.cfg'' \<mapsto> area_block ''A'' ''a'' @ area_block ''D'' ''d'']
        ''areas.cfg'' [''A'', ''A'', ''B'']
      = (Closed, Inl (AreaNotFound ''A'' ''areas.cfg''))"
proof -
  have bl: "blocks [''A'', ''B'', ''A''] (area_block ''A'' ''a'' @ area_block ''D'' ''d'')
      = [(''A'', concat (block_body ''a''))]"
    by code_simp
  have bl2: "blocks [''A'', ''A'', ''B''] (area_block ''A'' ''a'' @ area_block ''D'' ''d'')
      = [(''A'', concat (block_body ''a''))]"
    by code_simp
  have build: "all_build [(''A'', concat (block_body ''a''))]"
    by code_simp
  have found: "set [''A''] \<subseteq> block_ids [''A'', ''B'', ''A'']
        (area_block ''A'' ''a'' @ area_block ''D'' ''d'')"
    by (simp add: block_ids_def bl)
  have missing: "''B'' \<notin> block_ids [''A'', ''B'', ''A'']
        (area_block ''A'' ''a'' @ area_block ''D'' ''d'')"
    by (simp add: block_ids_def bl)
  have found2: "set [''A'', ''A''] \<subseteq> block_ids [''A'', ''A'', ''B'']
        (area_block ''A'' ''a'' @ area_block ''D'' ''d'')"
    by (simp add: block_ids_def bl2)
  have missing2: "''B'' \<notin> block_ids [''A'', ''A'', ''B'']
        (area_block ''A'' ''a'' @ area_block ''D'' ''d'')"
    by (simp add: block_ids_def bl2)
  have opened: "[''areas.cfg'' \<mapsto> area_block ''A'' ''a'' @ area_block ''D'' ''d''] ''areas.cfg''
      = Some (area_block ''A'' ''a'' @ area_block ''D'' ''d'')"
    by simp
  have first: "parse_area_file [''areas.cfg'' \<mapsto> area_block ''A'' ''a'' @ area_block ''D'' ''d'']
        ''areas.cfg'' [''A'', ''B'', ''A'']
      = (Closed, Inl (AreaNotFound ''B'' ''areas.cfg''))"
    using area_not_found_first_missing [where regions = "[''A'', ''B'', ''A'']"
      and us = "[''A'']" and n = "''B''" and vs = "[''A'']"
      and fs = "[''areas.cfg'' \<mapsto> area_block ''A'' ''a'' @ area_block ''D'' ''d'']"
      and path = "''areas.cfg''" and lines = "area_block ''A'' ''a'' @ area_block ''D'' ''d''"]
      bl build found missing opened
    by simp
  have second: "parse_area_file [''areas.cfg'' \<mapsto> area_block ''A'' ''a'' @ area_block ''D'' ''d'']
        ''areas.cfg'' [''A'', ''A'', ''B'']
      = (Closed, Inl (AreaNotFound ''A'' ''areas.cfg''))"
    using area_not_found_first_missing [where regions = "[''A'', ''A'', ''B'']"
      and us = "[''A'', ''A'']" and n = "''B''" and vs = "[]"
      and fs = "[''areas.cfg'' \<mapsto> area_block ''A'' ''a'' @ area_block ''D'' ''d'']"
      and path = "''areas.cfg''" and lines = "area_block ''A'' ''a'' @ area_block ''D'' ''d''"]
      bl2 build found2 missing2 opened
    by auto
  from first second bl bl2 build found missing found2 missing2 show ?thesis by simp
qed

section \<open>Projection arguments\<close>

lemma py_replace_char_empty:
  "py_replace [d] [] s = filter (\<lambda>c. c \<noteq> d) s"
proof (induction s)
  case Nil
  then show ?case by (simp add: py_replace.simps)
next
  case (Cons c cs)
  then show ?case
    by (subst py_replace.simps) simp
qed

lemma plus_not_space: "\<not> isspace CHR ''+''"
  by (simp add: isspace_def)

lemma isspace_filter_plus:
  "isspace c \<Longrightarrow> c \<noteq> CHR ''+''"
  using plus_not_space by auto

lemma split_acc_filter_plus:
  "split_acc (filter (\<lambda>c. c \<noteq> CHR ''+'') cur) (filter (\<lambda>c. c \<noteq> CHR ''+'') s)
     = filter (\<lambda>t. t \<noteq> []) (map (filter (\<lambda>c. c \<noteq> CHR ''+'')) (split_acc cur s))"
proof (induction s arbitrary: cur)
  case Nil
  then show ?case by simp
next
  case (Cons c cs)
  show ?case
  proof (cases "isspace c")
    case True
    then have "c \<noteq> CHR ''+''" by (rule isspace_filter_plus)
    with True Cons.IH [of "[]"] show ?thesis by simp
  next
    case False
    show ?thesis
    proof (cases "c = CHR ''+''")
      case True
      with False Cons.IH [of "cur @ [c]"] show ?thesis by simp
    next
      case nonplus: False
      with False Cons.IH [of "cur @ [c]"] show ?thesis by simp
    qed
  qed
qed

lemma py_split_filter_plus:
  "py_split (filter (\<lambda>c. c \<noteq> CHR ''+'') s)
     = filter (\<lambda>t. t \<noteq> []) (map (filter (\<lambda>c. c \<noteq> CHR ''+'')) (py_split s))"
  using split_acc_filter_plus [of "[]" s] by (simp add: py_split_def)

lemma filter_plus_strip_plus:
  "CHR ''+'' \<notin> set (strip_plus t) \<Longrightarrow> filter (\<lambda>c. c \<noteq> CHR ''+'') t = strip_plus t"
  unfolding strip_plus_def
  by (induction t) (auto simp: filter_id_conv)

lemma strip_plus_idem: "strip_plus (strip_plus t) = strip_plus t"
  by (simp add: strip_plus_def dropWhile_idem)

lemma strip_plus_no_plus: "CHR ''+'' \<notin> set t \<Longrightarrow> strip_plus t = t"
  unfolding strip_plus_def by (cases t) auto

lemma set_strip_plus: "set (strip_plus t) \<subseteq> set t"
  unfolding strip_plus_def by (rule set_dropWhileD [THEN subsetI]) 

lemma normalize_from_strip_plus:
  "normalize_from m (map strip_plus ts) = normalize_from m ts"
  by (induction ts arbitrary: m) (auto simp: strip_plus_idem split: option.splits)

lemma split_acc_tokens:
  "t \<in> set (split_acc cur s) \<Longrightarrow> \<forall>c\<in>set cur. \<not> isspace c \<Longrightarrow>
     t \<noteq> [] \<and> (\<forall>c\<in>set t. \<not> isspace c)"
proof (induction s arbitrary: cur)
  case Nil
  then show ?case by (auto split: if_splits)
next
  case (Cons c cs)
  show ?case
  proof (cases "isspace c")
    case True
    with Cons.prems have "t = cur \<and> cur \<noteq> [] \<or> t \<in> set (split_acc [] cs)"
      by (auto split: if_splits)
    then show ?thesis using Cons.prems(2) Cons.IH [of "[]"] by auto
  next
    case False
    with Cons.prems have "t \<in> set (split_acc (cur @ [c]) cs)" by simp
    moreover have "\<forall>d\<in>set (cur @ [c]). \<not> isspace d" using False Cons.prems(2) by simp
    ultimately show ?thesis by (rule Cons.IH)
  qed
qed

lemma py_split_tokens:
  "t \<in> set (py_split s) \<Longrightarrow> t \<noteq> [] \<and> (\<forall>c\<in>set t. \<not> isspace c)"
  using split_acc_tokens [of t "[]" s] by (simp add: py_split_def)

lemma py_strip_no_space:
  assumes "\<forall>c\<in>set t. \<not> isspace c"
  shows "py_strip t = t"
proof -
  have "dropWhile isspace u = u" if "\<forall>c\<in>set u. \<not> isspace c" for u
    using that by (cases u) auto
  from this [of t] this [of "rev t"] assms show ?thesis
    by (simp add: py_strip_def)
qed

lemma split_first_None_iff: "split_first d t = None \<longleftrightarrow> d \<notin> set t"
  by (induction t) auto

lemma split_first_Some:
  "split_first d t = Some (k, v) \<Longrightarrow> t = k @ d # v \<and> d \<notin> set k"
  by (induction t arbitrary: k) (auto split: if_splits)

lemma split_first_first:
  "d \<notin> set k \<Longrightarrow> split_first d (k @ d # v) = Some (k, v)"
  by (induction k) auto

lemma update_scalars:
  "AList.update k (Scalar v) (scalars m) = scalars (AList.update k v m)"
  by (induction m) (auto simp: scalars_def)

lemma plain_parts:
  assumes "plain t" "split_first CHR ''='' t = Some (k, v)"
  shows "py_strip t \<noteq> []" "py_strip k = k" "parse_value v = Scalar v"
proof -
  from split_first_Some [OF assms(2)] have t: "t = k @ CHR ''='' # v" by simp
  from assms(1) have ns: "\<forall>c\<in>set t. \<not> isspace c" and nc: "CHR '','' \<notin> set t" and ne: "t \<noteq> []"
    by (auto simp: plain_def list_all_iff)
  show "py_strip t \<noteq> []" using py_strip_no_space [OF ns] ne by simp
  have "\<forall>c\<in>set k. \<not> isspace c" using ns t by auto
  then show "py_strip k = k" by (rule py_strip_no_space)
  have "\<forall>c\<in>set v. \<not> isspace c" using ns t by auto
  then have "py_strip v = v" by (rule py_strip_no_space)
  moreover have "CHR '','' \<notin> set v" using nc t by auto
  ultimately show "parse_value v = Scalar v" by (simp add: parse_value_def)
qed

lemma plain_not_blank: "plain t \<Longrightarrow> py_strip t = t \<and> t \<noteq> []"
  using py_strip_no_space [of t] by (auto simp: plain_def list_all_iff)

lemma ConfigObj_from_plain:
  assumes "list_all plain ts" "list_all (\<lambda>t. strip_plus t = t) ts"
  shows "ConfigObj_from (scalars m) ts = as_config (normalize_from m ts)"
  using assms
proof (induction ts arbitrary: m)
  case Nil
  then show ?case by (simp add: as_config_def)
next
  case (Cons t ts)
  then have p: "plain t" and sp: "strip_plus t = t" by simp_all
  show ?case
  proof (cases "split_first CHR ''='' t")
    case None
    with p sp show ?thesis
      using plain_not_blank [OF p] by (simp add: as_config_def)
  next
    case (Some kv)
    obtain k v where kv: "kv = (k, v)" by (cases kv)
    from plain_parts [OF p Some [unfolded kv] ] Some kv sp Cons show ?thesis
      by (simp add: update_scalars)
  qed
qed

lemma ConfigObj_from_good_prefix:
  assumes "list_all plain pre" "list_all (\<lambda>p. CHR ''='' \<in> set p) pre"
  shows "\<exists>m'. (\<forall>rest. ConfigObj_from m (pre @ rest) = ConfigObj_from m' rest)
     \<and> map_of m' = map_of m ++ map_of (rev (map (\<lambda>t. case the (split_first CHR ''='' t) of
                                                   (k, v) \<Rightarrow> (k, Scalar v)) pre))"
  using assms
proof (induction pre arbitrary: m)
  case Nil
  show ?case by (intro exI [of _ m]) simp
next
  case (Cons t pre)
  then have p: "plain t" and "CHR ''='' \<in> set t" by simp_all
  then obtain k v where kv: "split_first CHR ''='' t = Some (k, v)"
    using split_first_None_iff [of "CHR ''=''" t] by (cases "split_first CHR ''='' t") auto
  note parts = plain_parts [OF p kv]
  from Cons.IH [of "AList.update k (Scalar v) m"] Cons.prems obtain m' where
    m': "\<forall>rest. ConfigObj_from (AList.update k (Scalar v) m) (pre @ rest) = ConfigObj_from m' rest"
      "map_of m' = map_of (AList.update k (Scalar v) m)
          ++ map_of (rev (map (\<lambda>t. case the (split_first CHR ''='' t) of
                                     (k, v) \<Rightarrow> (k, Scalar v)) pre))"
    by auto
  have "\<forall>rest. ConfigObj_from m ((t # pre) @ rest) = ConfigObj_from m' rest"
    using m'(1) parts kv by simp
  moreover have "map_of m' = map_of m ++ map_of (rev (map (\<lambda>t. case the (split_first CHR ''='' t) of
                                     (k, v) \<Rightarrow> (k, Scalar v)) (t # pre)))"
    using m'(2) kv by (simp add: update_conv' map_add_def fun_eq_iff split: option.splits)
  ultimately show ?case by blast
qed

lemma map_of_rev_last:
  assumes "i < length ps" "ps ! i = (k, v)" "\<forall>j. i < j \<and> j < length ps \<longrightarrow> fst (ps ! j) \<noteq> k"
  shows "map_of (rev ps) k = Some v"
proof -
  have ps: "ps = take i ps @ (k, v) # drop (Suc i) ps"
    using assms(1,2) id_take_nth_drop by fastforce
  have "k \<notin> fst ` set (drop (Suc i) ps)"
  proof
    assume "k \<in> fst ` set (drop (Suc i) ps)"
    then obtain j where "j < length (drop (Suc i) ps)" "fst (drop (Suc i) ps ! j) = k"
      by (auto simp: in_set_conv_nth)
    then have "Suc i + j < length ps" "fst (ps ! (Suc i + j)) = k" by auto
    with assms(3) show False by auto
  qed
  then have none: "map_of (rev (drop (Suc i) ps)) k = None"
    by (simp add: map_of_eq_None_iff)
  have "map_of (rev ps) k = map_of (rev (drop (Suc i) ps) @ (k, v) # rev (take i ps)) k"
    by (subst ps) simp
  also have "\<dots> = Some v" using none by (simp add: map_add_def)
  finally show ?thesis .
qed

lemma startswith_append: "startswith (a @ b) a"
  by (induction a) auto

lemma startswith_prefix: "startswith s p \<Longrightarrow> \<exists>r. s = p @ r"
  by (induction s p rule: startswith.induct) auto

text \<open>
  Claim C7, as the code has it, in five parts.
  \<^item> A string is treated as the sequence of its whitespace-separated tokens with every
    \<open>+\<close> removed, not only a leading one, and without the tokens that consisted of \<open>+\<close>
    only; a sequence of tokens is used as it is.
  \<^item> On a sequence of plain tokens without a leading \<open>+\<close> the result is that of the
    normalizer of the spec.
  \<^item> On a string whose tokens have no comma, no \<open>+\<close> after their leading ones and are not
    made of \<open>+\<close> only, the result is that of the normalizer of the spec on its tokens.
  \<^item> A plain token without \<open>=\<close>, after plain tokens that have one, is a format error,
    whatever follows it.
  \<^item> On plain tokens that all have a \<open>=\<close> a mapping is returned, and the value of a key
    \<open>k\<close> is the text after the first \<open>=\<close> of the last token whose text before its first
    \<open>=\<close> is \<open>k\<close>: a later duplicate key overwrites the earlier value.
\<close>

theorem get_proj4_args_normalizes:
  "get_proj4_args (Scalar s)
      = get_proj4_args (Seq (filter (\<lambda>t. t \<noteq> []) (map (filter (\<lambda>c. c \<noteq> CHR ''+'')) (py_split s))))
   \<and> (list_all plain ts \<and> list_all (\<lambda>t. strip_plus t = t) ts \<longrightarrow>
        get_proj4_args (Seq ts) = as_config (normalize_spec ts))
   \<and> (list_all (\<lambda>t. strip_plus t \<noteq> [] \<and> CHR ''+'' \<notin> set (strip_plus t) \<and> CHR '','' \<notin> set t)
          (py_split s) \<longrightarrow>
        get_proj4_args (Scalar s) = as_config (normalize_spec (py_split s)))
   \<and> (list_all plain pre \<and> list_all (\<lambda>p. CHR ''='' \<in> set p) pre \<and> plain t \<and> CHR ''='' \<notin> set t \<longrightarrow>
        get_proj4_args (Seq (pre @ t # post)) = Inl (FormatError t))
   \<and> (list_all plain ts \<and> list_all (\<lambda>p. CHR ''='' \<in> set p) ts \<longrightarrow>
        (\<exists>m. get_proj4_args (Seq ts) = Inr m \<and>
           (\<forall>i k v. i < length ts \<and> ts ! i = k @ CHR ''='' # v \<and> CHR ''='' \<notin> set k \<and>
               (\<forall>j. i < j \<and> j < length ts \<longrightarrow> \<not> startswith (ts ! j) (k @ ''=''))
              \<longrightarrow> map_of m k = Some (Scalar v))))"
proof (intro conjI impI)
  show exact: "get_proj4_args (Scalar s)
      = get_proj4_args (Seq (filter (\<lambda>t. t \<noteq> []) (map (filter (\<lambda>c. c \<noteq> CHR ''+'')) (py_split s))))"
    by (simp add: get_proj4_args_def py_replace_char_empty py_split_filter_plus)
next
  assume "list_all plain ts \<and> list_all (\<lambda>t. strip_plus t = t) ts"
  then show "get_proj4_args (Seq ts) = as_config (normalize_spec ts)"
    using ConfigObj_from_plain [of ts "[]"]
    by (simp add: get_proj4_args_def ConfigObj_def normalize_spec_def scalars_def)
next
  assume ok: "list_all (\<lambda>t. strip_plus t \<noteq> [] \<and> CHR ''+'' \<notin> set (strip_plus t) \<and> CHR '','' \<notin> set t)
      (py_split s)"
  let ?toks = "map strip_plus (py_split s)"
  have m: "map (filter (\<lambda>c. c \<noteq> CHR ''+'')) (py_split s) = ?toks"
    using ok by (simp add: filter_plus_strip_plus list_all_iff)
  have f: "filter (\<lambda>t. t \<noteq> []) ?toks = ?toks"
    using ok by (simp add: filter_id_conv list_all_iff)
  have pl: "list_all plain ?toks"
  proof -
    have "plain (strip_plus t)" if t: "t \<in> set (py_split s)" for t
    proof -
      from ok t have "strip_plus t \<noteq> []" "CHR '','' \<notin> set t" by (auto simp: list_all_iff)
      moreover from py_split_tokens [OF t] have "\<forall>c\<in>set t. \<not> isspace c" by simp
      ultimately show ?thesis using set_strip_plus [of t]
        by (auto simp: plain_def list_all_iff)
    qed
    then show ?thesis by (simp add: list_all_iff)
  qed
  have sp: "list_all (\<lambda>t. strip_plus t = t) ?toks"
    by (simp add: list_all_iff strip_plus_idem)
  have "get_proj4_args (Scalar s) = ConfigObj_from (scalars []) ?toks"
    by (simp add: get_proj4_args_def py_replace_char_empty py_split_filter_plus m f
        ConfigObj_def scalars_def)
  also have "\<dots> = as_config (normalize_from [] ?toks)"
    using ConfigObj_from_plain [OF pl sp] .
  also have "\<dots> = as_config (normalize_spec (py_split s))"
    by (simp add: normalize_from_strip_plus normalize_spec_def)
  finally show "get_proj4_args (Scalar s) = as_config (normalize_spec (py_split s))" .
next
  assume a: "list_all plain pre \<and> list_all (\<lambda>p. CHR ''='' \<in> set p) pre \<and> plain t \<and> CHR ''='' \<notin> set t"
  from ConfigObj_from_good_prefix [of pre "[]"] a obtain m' where
    "ConfigObj_from [] (pre @ t # post) = ConfigObj_from m' (t # post)" by blast
  moreover have "ConfigObj_from m' (t # post) = Inl (FormatError t)"
    using a plain_not_blank [of t] split_first_None_iff [of "CHR ''=''" t] by simp
  ultimately show "get_proj4_args (Seq (pre @ t # post)) = Inl (FormatError t)"
    by (simp add: get_proj4_args_def ConfigObj_def)
next
  assume a: "list_all plain ts \<and> list_all (\<lambda>p. CHR ''='' \<in> set p) ts"
  let ?tp = "\<lambda>t. case the (split_first CHR ''='' t) of (k, v) \<Rightarrow> (k, Scalar v)"
  from ConfigObj_from_good_prefix [of ts "[]"] a obtain m where
    run: "ConfigObj_from [] (ts @ []) = ConfigObj_from m []"
    and mo: "map_of m = map_of [] ++ map_of (rev (map ?tp ts))"
    by blast
  have res: "get_proj4_args (Seq ts) = Inr m"
    using run by (simp add: get_proj4_args_def ConfigObj_def)
  have "map_of m k = Some (Scalar v)"
    if i: "i < length ts" and ti: "ts ! i = k @ CHR ''='' # v" and k: "CHR ''='' \<notin> set k"
      and later: "\<forall>j. i < j \<and> j < length ts \<longrightarrow> \<not> startswith (ts ! j) (k @ ''='')"
    for i k v
  proof -
    have pi: "map ?tp ts ! i = (k, Scalar v)"
      using i ti split_first_first [OF k, of v] by simp
    have "fst (map ?tp ts ! j) \<noteq> k" if j: "i < j \<and> j < length ts" for j
    proof
      assume eq: "fst (map ?tp ts ! j) = k"
      from a j have "CHR ''='' \<in> set (ts ! j)" by (simp add: list_all_iff)
      then obtain k' v' where kv: "split_first CHR ''='' (ts ! j) = Some (k', v')"
        using split_first_None_iff [of "CHR ''=''" "ts ! j"]
        by (cases "split_first CHR ''='' (ts ! j)") auto
      with eq j have "k' = k" by simp
      with split_first_Some [OF kv] have "ts ! j = (k @ ''='') @ v'" by simp
      then have "startswith (ts ! j) (k @ ''='')" by (simp only: startswith_append)
      with later j show False by blast
    qed
    then have "\<forall>j. i < j \<and> j < length (map ?tp ts) \<longrightarrow> fst (map ?tp ts ! j) \<noteq> k" by simp
    from map_of_rev_last [OF _ pi this] i mo show ?thesis by simp
  qed
  with res show "\<exists>m. get_proj4_args (Seq ts) = Inr m \<and>
           (\<forall>i k v. i < length ts \<and> ts ! i = k @ CHR ''='' # v \<and> CHR ''='' \<notin> set k \<and>
               (\<forall>j. i < j \<and> j < length ts \<longrightarrow> \<not> startswith (ts ! j) (k @ ''=''))
              \<longrightarrow> map_of m k = Some (Scalar v))"
    by blast
qed

text \<open>
  Claim C7, the amended statement on examples: the string and the tokens of the spec's
  example normalize to \<open>proj: stere, lat_0: 90, lon_0: 0\<close>, in this order; in
  \<^verbatim>\<open>a=1 b=2 a=3=4\<close> the later \<open>a\<close> overwrites the earlier one in place and the value is
  the text after the first \<open>=\<close>; the token \<^verbatim>\<open>no_defs\<close> is a format error.
\<close>

theorem get_proj4_args_normalizes_witness:
  "list_all plain [''a=1'', ''b=2'', ''a=3=4'']
   \<and> list_all (\<lambda>t. strip_plus t = t) [''a=1'', ''b=2'', ''a=3=4'']
   \<and> list_all (\<lambda>p. CHR ''='' \<in> set p) [''a=1'', ''b=2'', ''a=3=4'']
   \<and> get_proj4_args (Seq [''a=1'', ''b=2'', ''a=3=4''])
      = as_config (normalize_spec [''a=1'', ''b=2'', ''a=3=4''])
   \<and> get_proj4_args (Seq [''a=1'', ''b=2'', ''a=3=4''])
      = Inr [(''a'', Scalar ''3=4''), (''b'', Scalar ''2'')]
   \<and> list_all (\<lambda>t. strip_plus t \<noteq> [] \<and> CHR ''+'' \<notin> set (strip_plus t) \<and> CHR '','' \<notin> set t)
        (py_split ''+proj=stere +lat_0=90 +lon_0=0'')
   \<and> get_proj4_args (Scalar ''+proj=stere +lat_0=90 +lon_0=0'')
      = as_config (normalize_spec (py_split ''+proj=stere +lat_0=90 +lon_0=0''))
   \<and> get_proj4_args (Scalar ''+proj=stere +lat_0=90 +lon_0=0'')
      = Inr [(''proj'', Scalar ''stere''), (''lat_0'', Scalar ''90''), (''lon_0'', Scalar ''0'')]
   \<and> get_proj4_args (Seq [''proj=stere'', ''lat_0=90'', ''lon_0=0''])
      = Inr [(''proj'', Scalar ''stere''), (''lat_0'', Scalar ''90''), (''lon_0'', Scalar ''0'')]
   \<and> list_all plain [''proj=utm''] \<and> list_all (\<lambda>p. CHR ''='' \<in> set p) [''proj=utm'']
   \<and> plain ''no_defs'' \<and> CHR ''='' \<notin> set ''no_defs''
   \<and> get_proj4_args (Seq ([''proj=utm''] @ ''no_defs'' # [''zone=33'']))
      = Inl (FormatError ''no_defs'')
   \<and> get_proj4_args (Scalar ''+proj=utm +no_defs +zone=33'') = Inl (FormatError ''no_defs'')"
proof -
  have h1: "list_all plain [''a=1'', ''b=2'', ''a=3=4'']
      \<and> list_all (\<lambda>t. strip_plus t = t) [''a=1'', ''b=2'', ''a=3=4'']"
    by code_simp
  have h2: "list_all (\<lambda>p. CHR ''='' \<in> set p) [''a=1'', ''b=2'', ''a=3=4'']"
    by code_simp
  have h3: "list_all (\<lambda>t. strip_plus t \<noteq> [] \<and> CHR ''+'' \<notin> set (strip_plus t) \<and> CHR '','' \<notin> set t)
        (py_split ''+proj=stere +lat_0=90 +lon_0=0'')"
    by code_simp
  have h4: "list_all plain [''proj=utm''] \<and> list_all (\<lambda>p. CHR ''='' \<in> set p) [''proj=utm'']
      \<and> plain ''no_defs'' \<and> CHR ''='' \<notin> set ''no_defs''"
    by code_simp
  have v1: "get_proj4_args (Seq [''a=1'', ''b=2'', ''a=3=4''])
      = Inr [(''a'', Scalar ''3=4''), (''b'', Scalar ''2'')]"
    by code_simp
  have v2: "get_proj4_args (Scalar ''+proj=stere +lat_0=90 +lon_0=0'')
      = Inr [(''proj'', Scalar ''stere''), (''lat_0'', Scalar ''90''), (''lon_0'', Scalar ''0'')]"
    by code_simp
  have v3: "get_proj4_args (Seq [''proj=stere'', ''lat_0=90'', ''lon_0=0''])
      = Inr [(''proj'', Scalar ''stere''), (''lat_0'', Scalar ''90''), (''lon_0'', Scalar ''0'')]"
    by code_simp
  have v4: "get_proj4_args (Scalar ''+proj=utm +no_defs +zone=33'') = Inl (FormatError ''no_defs'')"
    by code_simp
  from get_proj4_args_normalizes [of "''+proj=stere +lat_0=90 +lon_0=0''"
      "[''a=1'', ''b=2'', ''a=3=4'']" "[''proj=utm'']" "''no_defs''" "[''zone=33'']"] h1 h2 h3 h4
  have "get_proj4_args (Seq [''a=1'', ''b=2'', ''a=3=4''])
      = as_config (normalize_spec [''a=1'', ''b=2'', ''a=3=4''])
    \<and> get_proj4_args (Scalar ''+proj=stere +lat_0=90 +lon_0=0'')
      = as_config (normalize_spec (py_split ''+proj=stere +lat_0=90 +lon_0=0''))
    \<and> get_proj4_args (Seq ([''proj=utm''] @ ''no_defs'' # [''zone=33'']))
      = Inl (FormatError ''no_defs'')"
    by blast
  with h1 h2 h3 h4 v1 v2 v3 v4 show ?thesis by simp
qed

text \<open>
  Claim C7 as stated says that a leading \<open>+\<close> is stripped from each token. On the string
  \<^verbatim>\<open>+proj=stere +x_0=1e+06\<close> the code also removes the \<open>+\<close> inside the value and maps
  \<open>x_0\<close> to \<^verbatim>\<open>1e06\<close>, where the normalizer of the spec, which strips the leading \<open>+\<close> of
  the token, gives \<^verbatim>\<open>1e+06\<close>.
\<close>

theorem leading_plus_counterexample:
  "get_proj4_args (Scalar ''+proj=stere +x_0=1e+06'')
      = Inr [(''proj'', Scalar ''stere''), (''x_0'', Scalar ''1e06'')]
   \<and> as_config (normalize_spec (py_split ''+proj=stere +x_0=1e+06''))
      = Inr [(''proj'', Scalar ''stere''), (''x_0'', Scalar ''1e+06'')]"
  by code_simp

section \<open>The nearest-neighbour index map\<close>

lemma map_exn_Inr:
  "map_exn f xs = Inr ys \<Longrightarrow>
     length ys = length xs \<and> (\<forall>i<length xs. f (xs ! i) = Inr (ys ! i))"
proof (induction xs arbitrary: ys)
  case Nil
  then show ?case by simp
next
  case (Cons x xs)
  from Cons.prems obtain y ys' where y: "f x = Inr y" and ys': "map_exn f xs = Inr ys'"
    and ys: "ys = y # ys'"
    by (auto simp: bind_exn_Inr_iff)
  from Cons.IH [OF ys'] y ys show ?case
    by (auto simp: nth_Cons split: nat.splits)
qed

lemma map_exn_returns:
  "\<forall>x\<in>set xs. \<exists>y. f x = Inr y \<Longrightarrow> \<exists>ys. map_exn f xs = Inr ys"
proof (induction xs)
  case Nil
  then show ?case by simp
next
  case (Cons x xs)
  then obtain y ys where "f x = Inr y" "map_exn f xs = Inr ys" by auto
  then show ?case by simp
qed

lemma np_assign_length:
  "length msk = length xs \<Longrightarrow> length (np_assign xs msk v) = length xs"
  by (simp add: np_assign_def)

lemma np_assign_nth:
  "length msk = length xs \<Longrightarrow> i < length xs \<Longrightarrow>
     np_assign xs msk v ! i = (if msk ! i then v else xs ! i)"
  by (simp add: np_assign_def)

lemma concat_chunks:
  "concat (map (\<lambda>i. take c (drop (i * c) xs)) [0..<r]) = take (r * c) xs"
proof (induction r)
  case 0
  then show ?case by simp
next
  case (Suc r)
  have "take (r * c) xs @ take c (drop (r * c) xs) = take (r * c + c) xs"
    by (simp add: take_add)
  with Suc show ?case by (simp add: add.commute)
qed

lemma np_reshape_concat:
  "np_reshape xs shape = Inr m \<Longrightarrow> concat m = xs"
  by (auto simp: np_reshape_def concat_chunks split: if_splits)

lemma np_reshape_shape:
  "np_reshape xs shape = Inr m \<Longrightarrow>
     length m = fst shape \<and> (\<forall>row\<in>set m. length row = snd shape)"
proof -
  assume r: "np_reshape xs shape = Inr m"
  then have len: "length xs = fst shape * snd shape"
    and m: "m = map (\<lambda>i. take (snd shape) (drop (i * snd shape) xs)) [0..<fst shape]"
    by (auto simp: np_reshape_def split: if_splits)
  have "length (take (snd shape) (drop (i * snd shape) xs)) = snd shape" if "i < fst shape" for i
  proof -
    from that have "Suc i \<le> fst shape" by simp
    then have "Suc i * snd shape \<le> fst shape * snd shape" by (rule mult_le_mono1)
    with len show ?thesis by simp
  qed
  with m show ?thesis by auto
qed

text \<open>
  Claim C3. The claim is that every target pixel whose entry of \<open>index_array\<close> equals the
  number of valid source pixels gets \<open>-1\<close> in both outputs. The source substitutes index 0
  for such an entry and looks it up in \<open>rows_valid\<close> before it writes the \<open>-1\<close>. With no
  valid source pixel the number is 0, every entry 0 is the sentinel, \<open>rows_valid\<close> is
  empty, and the lookup of index 0 raises IndexError: no output is produced.
\<close>

theorem no_valid_pixel_raises:
  "count_valid [False, False, False, False] = 0
   \<and> generate_nearest_neighbour_linesample_arrays (2, 2) (1, 2)
        ([False, False, False, False], [0, 0]) = Inl IndexError"
  by code_simp

text \<open>
  Where the call returns, the outputs are as the spec describes them. Both outputs, read in
  row-major order, have one entry per entry of \<open>index_array\<close>; at a position whose entry
  equals the number of valid source pixels both hold \<open>-1\<close>; at every other position they
  hold the values of \<open>rows_valid\<close> and \<open>cols_valid\<close> at that position's own entry of
  \<open>index_array\<close>, whatever the entries of the other positions are.
\<close>

lemma nearest_neighbour_sentinel:
  assumes "generate_nearest_neighbour_linesample_arrays source_shape target_shape
      (valid_index, index_array) = Inr (row_indices, col_indices)"
    and "p < length index_array"
  shows "\<exists>rows_valid cols_valid.
      np_select (grid_rows source_shape) valid_index = Inr rows_valid
    \<and> np_select (grid_cols source_shape) valid_index = Inr cols_valid
    \<and> length (concat row_indices) = length index_array
    \<and> length (concat col_indices) = length index_array
    \<and> (if index_array ! p = count_valid valid_index
        then concat row_indices ! p = - 1 \<and> concat col_indices ! p = - 1
        else np_item rows_valid (index_array ! p) = Inr (concat row_indices ! p)
           \<and> np_item cols_valid (index_array ! p) = Inr (concat col_indices ! p))"
proof -
  define n where "n = count_valid valid_index"
  define index_mask where "index_mask = map (\<lambda>i. i = n) index_array"
  define index_array' where "index_array' = np_assign index_array index_mask 0"
  from assms(1) obtain rows_valid cols_valid row_sample col_sample where
    rv: "np_select (grid_rows source_shape) valid_index = Inr rows_valid" and
    cv: "np_select (grid_cols source_shape) valid_index = Inr cols_valid" and
    rs: "np_take rows_valid index_array' = Inr row_sample" and
    cs: "np_take cols_valid index_array' = Inr col_sample" and
    rr: "np_reshape (np_assign row_sample index_mask (- 1)) target_shape = Inr row_indices" and
    cr: "np_reshape (np_assign col_sample index_mask (- 1)) target_shape = Inr col_indices"
    unfolding generate_nearest_neighbour_linesample_arrays_def Let_def
      n_def index_mask_def index_array'_def
    by (auto simp: bind_exn_Inr_iff)
  have lm: "length index_mask = length index_array" by (simp add: index_mask_def)
  have la: "length index_array' = length index_array"
    by (simp add: index_array'_def np_assign_length lm)
  from map_exn_Inr [OF rs [unfolded np_take_def] ] la
  have lrs: "length row_sample = length index_array"
    and irs: "np_item rows_valid (index_array' ! p) = Inr (row_sample ! p)"
    using assms(2) by auto
  from map_exn_Inr [OF cs [unfolded np_take_def] ] la
  have lcs: "length col_sample = length index_array"
    and ics: "np_item cols_valid (index_array' ! p) = Inr (col_sample ! p)"
    using assms(2) by auto
  have crow: "concat row_indices = np_assign row_sample index_mask (- 1)"
    using np_reshape_concat [OF rr] .
  have ccol: "concat col_indices = np_assign col_sample index_mask (- 1)"
    using np_reshape_concat [OF cr] .
  have mp: "index_mask ! p = (index_array ! p = n)"
    using assms(2) by (simp add: index_mask_def)
  have ap: "index_array' ! p = (if index_array ! p = n then 0 else index_array ! p)"
    using assms(2) lm mp by (simp add: index_array'_def np_assign_nth)
  have rowp: "concat row_indices ! p = (if index_array ! p = n then - 1 else row_sample ! p)"
    using assms(2) lm lrs mp by (simp add: crow np_assign_nth)
  have colp: "concat col_indices ! p = (if index_array ! p = n then - 1 else col_sample ! p)"
    using assms(2) lm lcs mp by (simp add: ccol np_assign_nth)
  have "length (concat row_indices) = length index_array"
    using lm lrs by (simp add: crow np_assign_length)
  moreover have "length (concat col_indices) = length index_array"
    using lm lcs by (simp add: ccol np_assign_length)
  moreover have "if index_array ! p = count_valid valid_index
        then concat row_indices ! p = - 1 \<and> concat col_indices ! p = - 1
        else np_item rows_valid (index_array ! p) = Inr (concat row_indices ! p)
           \<and> np_item cols_valid (index_array ! p) = Inr (concat col_indices ! p)"
  proof (cases "index_array ! p = n")
    case True
    with rowp colp show ?thesis by (simp add: n_def)
  next
    case False
    with rowp colp irs ics ap show ?thesis by (simp add: n_def)
  qed
  ultimately show ?thesis using rv cv by blast
qed

text \<open>
  A 2 by 2 source with three valid pixels and a target of three pixels: the first target
  pixel has no match, the second and the third keep their own lookups.
\<close>

lemma nearest_neighbour_example:
  "generate_nearest_neighbour_linesample_arrays (2, 2) (1, 3)
      ([True, False, True, True], [3, 2, 0]) = Inr ([ [- 1, 1, 0] ], [ [- 1, 1, 0] ])
   \<and> (1::nat) < length [3, 2, 0 :: int]
   \<and> np_select (grid_rows (2, 2)) [True, False, True, True] = Inr [0, 1, 1]
   \<and> np_select (grid_cols (2, 2)) [True, False, True, True] = Inr [0, 0, 1]
   \<and> count_valid [True, False, True, True] = 3
   \<and> concat [ [- 1, 1, 0 :: int] ] ! 0 = - 1
   \<and> np_item [0, 1, 1 :: int] ([3, 2, 0] ! 1) = Inr (concat [ [- 1, 1, 0] ] ! 1)
   \<and> np_item [0, 0, 1 :: int] ([3, 2, 0] ! 1) = Inr (concat [ [- 1, 1, 0] ] ! 1)"
proof -
  have run: "generate_nearest_neighbour_linesample_arrays (2, 2) (1, 3)
      ([True, False, True, True], [3, 2, 0]) = Inr ([ [- 1, 1, 0] ], [ [- 1, 1, 0] ])"
    by code_simp
  have rv: "np_select (grid_rows (2, 2)) [True, False, True, True] = Inr [0, 1, 1]"
    by code_simp
  have cv: "np_select (grid_cols (2, 2)) [True, False, True, True] = Inr [0, 0, 1]"
    by code_simp
  have n: "count_valid [True, False, True, True] = 3"
    by code_simp
  from nearest_neighbour_sentinel [OF run, of 1] rv cv n run
  show ?thesis by (simp add: np_item_def)
qed

lemma length_grid_rows: "length (grid_rows shape) = fst shape * snd shape"
  by (simp add: grid_rows_def length_concat comp_def sum_list_triv)

lemma length_grid_cols: "length (grid_cols shape) = fst shape * snd shape"
  by (simp add: grid_cols_def length_concat comp_def sum_list_triv)

lemma length_selected:
  "length xs = length bs \<Longrightarrow>
     int (length (map fst (filter snd (zip xs bs)))) = count_valid bs"
  unfolding count_valid_def
  by (induction xs bs rule: list_induct2) auto

lemma np_take_returns:
  assumes "\<forall>i\<in>set idx. 0 \<le> i \<and> i < int (length xs)"
  shows "\<exists>ys. np_take xs idx = Inr ys \<and> length ys = length idx"
proof -
  have "\<forall>i\<in>set idx. \<exists>y. np_item xs i = Inr y"
    using assms by (simp add: np_item_def)
  from map_exn_returns [OF this] obtain ys where ys: "map_exn (np_item xs) idx = Inr ys" ..
  from map_exn_Inr [OF ys] ys show ?thesis by (simp add: np_take_def)
qed

text \<open>
  The call does return when the query result fits the areas and there is a valid source
  pixel: the mask covers the source pixels, there is one index per target pixel, every
  index is a position among the valid pixels or the sentinel, and the number of valid
  pixels is positive (or the target is empty).
\<close>

lemma nearest_neighbour_returns:
  assumes "length valid_index = fst source_shape * snd source_shape"
    and "length index_array = fst target_shape * snd target_shape"
    and "\<forall>i\<in>set index_array. 0 \<le> i \<and> i \<le> count_valid valid_index"
    and "0 < count_valid valid_index \<or> index_array = []"
  shows "\<exists>row_indices col_indices.
     generate_nearest_neighbour_linesample_arrays source_shape target_shape
       (valid_index, index_array) = Inr (row_indices, col_indices)"
proof -
  define n where "n = count_valid valid_index"
  define index_mask where "index_mask = map (\<lambda>i. i = n) index_array"
  define index_array' where "index_array' = np_assign index_array index_mask 0"
  define rows_valid where
    "rows_valid = map fst (filter snd (zip (grid_rows source_shape) valid_index))"
  define cols_valid where
    "cols_valid = map fst (filter snd (zip (grid_cols source_shape) valid_index))"
  have rv: "np_select (grid_rows source_shape) valid_index = Inr rows_valid"
    using assms(1) by (simp add: np_select_def rows_valid_def length_grid_rows)
  have cv: "np_select (grid_cols source_shape) valid_index = Inr cols_valid"
    using assms(1) by (simp add: np_select_def cols_valid_def length_grid_cols)
  have lrv: "int (length rows_valid) = n"
    unfolding rows_valid_def n_def
    using assms(1) by (intro length_selected) (simp add: length_grid_rows)
  have lcv: "int (length cols_valid) = n"
    unfolding cols_valid_def n_def
    using assms(1) by (intro length_selected) (simp add: length_grid_cols)
  have lm: "length index_mask = length index_array" by (simp add: index_mask_def)
  have la: "length index_array' = length index_array"
    by (simp add: index_array'_def np_assign_length lm)
  have range: "\<forall>i\<in>set index_array'. 0 \<le> i \<and> i < n"
  proof
    fix i assume "i \<in> set index_array'"
    then obtain p where p: "p < length index_array" and i: "i = index_array' ! p"
      using la by (auto simp: in_set_conv_nth)
    have "index_array' ! p = (if index_array ! p = n then 0 else index_array ! p)"
      using p lm by (simp add: index_array'_def np_assign_nth index_mask_def)
    moreover have "0 \<le> index_array ! p \<and> index_array ! p \<le> n"
      using assms(3) p by (simp add: n_def)
    moreover have "0 < n" using assms(4) p by (auto simp: n_def)
    ultimately show "0 \<le> i \<and> i < n" using i by auto
  qed
  from np_take_returns [of index_array' rows_valid] range lrv la obtain row_sample where
    rs: "np_take rows_valid index_array' = Inr row_sample"
    and lrs: "length row_sample = length index_array" by auto
  from np_take_returns [of index_array' cols_valid] range lcv la obtain col_sample where
    cs: "np_take cols_valid index_array' = Inr col_sample"
    and lcs: "length col_sample = length index_array" by auto
  have "\<exists>m. np_reshape (np_assign row_sample index_mask (- 1)) target_shape = Inr m"
    using lrs lm assms(2) by (simp add: np_reshape_def np_assign_length)
  moreover have "\<exists>m. np_reshape (np_assign col_sample index_mask (- 1)) target_shape = Inr m"
    using lcs lm assms(2) by (simp add: np_reshape_def np_assign_length)
  ultimately show ?thesis
    unfolding generate_nearest_neighbour_linesample_arrays_def Let_def
    using rv cv rs cs
    by (auto simp: n_def index_mask_def index_array'_def)
qed

end
